theory Spec2Isabelle
  imports Complex_Main "HOL-Library.Word"
begin

unbundle bit_operations_syntax

section \<open>Numbers\<close>

text \<open>
  The program computes with C++ \<open>double\<close>. Arithmetic is modelled exactly: a value
  that takes part in arithmetic is a \<open>real\<close>, and no rounding or overflow is modelled.
  Two fields of the scheduler state are initialised from a special constant of the type
  (\<open>std::numeric_limits<double>::max()\<close>) and are only copied and compared afterwards;
  they have the type \<open>double\<close> below, which tells the largest finite value from the
  infinities and from NaN, with the comparisons of IEEE 754.
\<close>

datatype double = Finite real | PlusInfinity | MinusInfinity | NaN

definition numeric_limits_max :: real where
  "numeric_limits_max = (2 - 1 / 2 ^ 52) * 2 ^ 1023"

definition numeric_limits_lowest :: real where
  "numeric_limits_lowest = - numeric_limits_max"

fun double_less :: "double \<Rightarrow> double \<Rightarrow> bool" where
  "double_less NaN b = False"
| "double_less a NaN = False"
| "double_less (Finite a) (Finite b) = (a < b)"
| "double_less (Finite a) PlusInfinity = True"
| "double_less (Finite a) MinusInfinity = False"
| "double_less PlusInfinity b = False"
| "double_less MinusInfinity MinusInfinity = False"
| "double_less MinusInfinity b = True"

fun double_ge :: "double \<Rightarrow> double \<Rightarrow> bool" where
  "double_ge NaN b = False"
| "double_ge a NaN = False"
| "double_ge a b = (\<not> double_less a b)"

section \<open>Linear algebra primitives\<close>

type_synonym matrix = "real list list"

text \<open>
  A matrix is a vector of rows. Division by zero is not guarded in the source; the
  theorems below that use the inverse assume a non-zero determinant.
\<close>

definition invert2DMatrix :: "matrix \<Rightarrow> matrix" where
  "invert2DMatrix M =
     (let detInv = 1 / (M ! 0 ! 0 * M ! 1 ! 1 - M ! 0 ! 1 * M ! 1 ! 0)
      in [[detInv * M ! 1 ! 1, - detInv * M ! 0 ! 1],
          [- detInv * M ! 1 ! 0, detInv * M ! 0 ! 0]])"

type_synonym point2 = "real \<times> real"

definition transform2D :: "matrix \<Rightarrow> point2 \<Rightarrow> point2" where
  "transform2D M p =
     (M ! 0 ! 0 * fst p + M ! 0 ! 1 * snd p,
      M ! 1 ! 0 * fst p + M ! 1 ! 1 * snd p)"

definition transformND :: "matrix \<Rightarrow> real list \<Rightarrow> point2" where
  "transformND M p =
     (fold (\<lambda>col acc. acc + M ! 0 ! col * p ! col) [0..<length (M ! 0)] 0,
      fold (\<lambda>col acc. acc + M ! 1 ! col * p ! col) [0..<length (M ! 1)] 0)"

section \<open>The lattice-point enumerator\<close>

text \<open>
  The fields of the class keep their names without the trailing underscore, behind the
  prefix \<open>lpe\<close>. \<open>imin\<close>, \<open>imax\<close>, \<open>jmin\<close>, \<open>jmax\<close>, \<open>i\<close> and
  \<open>j\<close> are doubles that only ever hold the results of \<open>ceil\<close> and \<open>floor\<close> and
  sums of those with 1.0, so they are integers here.
\<close>

record LatticePointEnumerator =
  lpe_latticeBasis :: matrix
  lpe_inverseLatticeBasis :: matrix
  lpe_x0 :: real
  lpe_y0 :: real
  lpe_width :: real
  lpe_height :: real
  lpe_imin :: int
  lpe_imax :: int
  lpe_jmin :: int
  lpe_jmax :: int
  lpe_i :: int
  lpe_j :: int

definition updateBoundingBox ::
  "matrix \<Rightarrow> real \<times> real \<times> real \<times> real \<Rightarrow> point2 \<Rightarrow> real \<times> real \<times> real \<times> real" where
  "updateBoundingBox inverseLatticeBasis bb planePoint =
     (case bb of (xmin, xmax, ymin, ymax) \<Rightarrow>
        let q = transform2D inverseLatticeBasis planePoint
        in (min xmin (fst q), max xmax (fst q), min ymin (snd q), max ymax (snd q)))"

definition newLatticePointEnumerator ::
  "matrix \<Rightarrow> matrix \<Rightarrow> real \<Rightarrow> real \<Rightarrow> real \<Rightarrow> real \<Rightarrow> LatticePointEnumerator" where
  "newLatticePointEnumerator latticeBasis inverseLatticeBasis x0 y0 width height =
     (let bb0 = (numeric_limits_max, numeric_limits_lowest,
                 numeric_limits_max, numeric_limits_lowest);
          bb1 = updateBoundingBox inverseLatticeBasis bb0 (x0, y0);
          bb2 = updateBoundingBox inverseLatticeBasis bb1 (x0 + width, y0);
          bb3 = updateBoundingBox inverseLatticeBasis bb2 (x0, y0 + height);
          bb4 = updateBoundingBox inverseLatticeBasis bb3 (x0 + width, y0 + height)
      in case bb4 of (xmin, xmax, ymin, ymax) \<Rightarrow>
         \<lparr> lpe_latticeBasis = latticeBasis, lpe_inverseLatticeBasis = inverseLatticeBasis,
           lpe_x0 = x0, lpe_y0 = y0, lpe_width = width, lpe_height = height,
           lpe_imin = \<lceil>xmin\<rceil>, lpe_imax = \<lfloor>xmax\<rfloor>, lpe_jmin = \<lceil>ymin\<rceil>, lpe_jmax = \<lfloor>ymax\<rfloor>,
           lpe_i = \<lceil>xmin\<rceil>, lpe_j = \<lceil>ymin\<rceil> \<rparr>)"

definition insideRectangle :: "LatticePointEnumerator \<Rightarrow> point2 \<Rightarrow> bool" where
  "insideRectangle e p =
     (fst p \<ge> lpe_x0 e \<and> fst p \<le> lpe_x0 e + lpe_width e \<and>
      snd p \<ge> lpe_y0 e \<and> snd p \<le> lpe_y0 e + lpe_height e)"

text \<open>
  \<open>getNext\<close> is two nested loops that share the flag \<open>found\<close>; each loop is a
  recursive function over the enumerator, the flag and the output point.
\<close>

function getNext_inner ::
  "LatticePointEnumerator \<Rightarrow> bool \<Rightarrow> point2 \<Rightarrow> bool \<times> point2 \<times> LatticePointEnumerator" where
  "getNext_inner e found out =
     (if \<not> found \<and> lpe_j e \<le> lpe_jmax e
      then
        (let p = transform2D (lpe_latticeBasis e) (real_of_int (lpe_i e), real_of_int (lpe_j e))
         in if insideRectangle e p
            then getNext_inner (e\<lparr>lpe_j := lpe_j e + 1\<rparr>) True p
            else getNext_inner (e\<lparr>lpe_j := lpe_j e + 1\<rparr>) found out)
      else (found, out, e))"
  by pat_completeness auto

termination
  by (relation "measure (\<lambda>(e, found, out). nat (lpe_jmax e + 1 - lpe_j e))") auto

declare getNext_inner.simps [simp del]

lemma getNext_inner_static:
  "getNext_inner e found out = (found', out', e') \<Longrightarrow>
   e' = e\<lparr>lpe_j := lpe_j e'\<rparr> \<and> lpe_j e \<le> lpe_j e' \<and>
   (\<not> found' \<longrightarrow> lpe_jmax e < lpe_j e' \<and> \<not> found)"
proof (induction e found out rule: getNext_inner.induct)
  case (1 e found out)
  show ?case
  proof (cases "\<not> found \<and> lpe_j e \<le> lpe_jmax e")
    case False
    with "1.prems" show ?thesis
      by (auto simp: getNext_inner.simps [of e found out])
  next
    case True
    define p where "p = transform2D (lpe_latticeBasis e) (real_of_int (lpe_i e), real_of_int (lpe_j e))"
    show ?thesis
    proof (cases "insideRectangle e p")
      case inside: True
      have "getNext_inner e found out = getNext_inner (e\<lparr>lpe_j := lpe_j e + 1\<rparr>) True p"
        using True inside by (subst getNext_inner.simps) (simp add: p_def Let_def)
      with "1.prems"
      have "getNext_inner (e\<lparr>lpe_j := lpe_j e + 1\<rparr>) True p = (found', out', e')"
        by simp
      from "1.IH"(1) [OF True p_def inside this] show ?thesis by auto
    next
      case outside: False
      have "getNext_inner e found out = getNext_inner (e\<lparr>lpe_j := lpe_j e + 1\<rparr>) found out"
        using True outside by (subst getNext_inner.simps) (simp add: p_def Let_def)
      with "1.prems"
      have "getNext_inner (e\<lparr>lpe_j := lpe_j e + 1\<rparr>) found out = (found', out', e')"
        by simp
      from "1.IH"(2) [OF True p_def outside this] True show ?thesis by auto
    qed
  qed
qed

lemma getNext_inner_fields:
  assumes "getNext_inner e found out = (found', out', e')"
  shows "lpe_i e' = lpe_i e" "lpe_imax e' = lpe_imax e" "lpe_imin e' = lpe_imin e"
        "lpe_jmax e' = lpe_jmax e" "lpe_jmin e' = lpe_jmin e"
        "lpe_latticeBasis e' = lpe_latticeBasis e" "lpe_x0 e' = lpe_x0 e" "lpe_y0 e' = lpe_y0 e"
        "lpe_width e' = lpe_width e" "lpe_height e' = lpe_height e"
proof -
  from getNext_inner_static [OF assms] have "e' = e\<lparr>lpe_j := lpe_j e'\<rparr>" by simp
  then have "lpe_i e' = lpe_i e \<and> lpe_imax e' = lpe_imax e \<and> lpe_imin e' = lpe_imin e \<and>
        lpe_jmax e' = lpe_jmax e \<and> lpe_jmin e' = lpe_jmin e \<and>
        lpe_latticeBasis e' = lpe_latticeBasis e \<and> lpe_x0 e' = lpe_x0 e \<and> lpe_y0 e' = lpe_y0 e \<and>
        lpe_width e' = lpe_width e \<and> lpe_height e' = lpe_height e"
    by (cases e, cases e') simp
  then show "lpe_i e' = lpe_i e" "lpe_imax e' = lpe_imax e" "lpe_imin e' = lpe_imin e"
        "lpe_jmax e' = lpe_jmax e" "lpe_jmin e' = lpe_jmin e"
        "lpe_latticeBasis e' = lpe_latticeBasis e" "lpe_x0 e' = lpe_x0 e" "lpe_y0 e' = lpe_y0 e"
        "lpe_width e' = lpe_width e" "lpe_height e' = lpe_height e"
    by simp_all
qed

function getNext_outer ::
  "LatticePointEnumerator \<Rightarrow> bool \<Rightarrow> point2 \<Rightarrow> bool \<times> point2 \<times> LatticePointEnumerator" where
  "getNext_outer e found out =
     (if \<not> found \<and> lpe_i e \<le> lpe_imax e
      then
        (case getNext_inner e found out of (found1, out1, e1) \<Rightarrow>
           if lpe_j e1 > lpe_jmax e1
           then getNext_outer (e1\<lparr>lpe_i := lpe_i e1 + 1, lpe_j := lpe_jmin e1\<rparr>) found1 out1
           else getNext_outer e1 found1 out1)
      else (found, out, e))"
  by pat_completeness auto

termination
proof (relation "measure (\<lambda>(e, found, out). if found then 0 else 1 + nat (lpe_imax e + 1 - lpe_i e))")
  show "wf (measure (\<lambda>(e, found, out). if found then 0 else 1 + nat (lpe_imax e + 1 - lpe_i e)))"
    by simp
next
  fix e :: LatticePointEnumerator and found :: bool and out :: point2 and found1 y out1 e1
  assume c: "\<not> found \<and> lpe_i e \<le> lpe_imax e"
     and x: "(found1, y) = getNext_inner e found out" "(out1, e1) = y"
     and j: "lpe_jmax e1 < lpe_j e1"
  from x have g: "getNext_inner e found out = (found1, out1, e1)" by simp
  from getNext_inner_fields [OF g] have "lpe_i e1 = lpe_i e \<and> lpe_imax e1 = lpe_imax e"
    by simp
  with c show "((e1\<lparr>lpe_i := lpe_i e1 + 1, lpe_j := lpe_jmin e1\<rparr>, found1, out1), e, found, out)
        \<in> measure (\<lambda>(e, found, out). if found then 0 else 1 + nat (lpe_imax e + 1 - lpe_i e))"
    by auto
next
  fix e :: LatticePointEnumerator and found :: bool and out :: point2 and found1 y out1 e1
  assume c: "\<not> found \<and> lpe_i e \<le> lpe_imax e"
     and x: "(found1, y) = getNext_inner e found out" "(out1, e1) = y"
     and j: "\<not> lpe_jmax e1 < lpe_j e1"
  from x have g: "getNext_inner e found out = (found1, out1, e1)" by simp
  from getNext_inner_static [OF g] j getNext_inner_fields(4) [OF g] have "found1" by auto
  with c show "((e1, found1, out1), e, found, out)
        \<in> measure (\<lambda>(e, found, out). if found then 0 else 1 + nat (lpe_imax e + 1 - lpe_i e))"
    by auto
qed

declare getNext_outer.simps [simp del]

definition latticePoints_getNext ::
  "LatticePointEnumerator \<Rightarrow> point2 \<Rightarrow> bool \<times> point2 \<times> LatticePointEnumerator" where
  "latticePoints_getNext e out = getNext_outer e False out"

text \<open>
  The integer pairs still ahead of the enumerator, in the order in which \<open>getNext\<close>
  visits them: the rest of the current row, then the rows that follow. The loops over
  \<open>getNext\<close> end because this list gets shorter with every point that is found.
\<close>

definition latticePointOf :: "LatticePointEnumerator \<Rightarrow> int \<times> int \<Rightarrow> point2" where
  "latticePointOf e ij =
     transform2D (lpe_latticeBasis e) (real_of_int (fst ij), real_of_int (snd ij))"

definition accepts :: "LatticePointEnumerator \<Rightarrow> int \<times> int \<Rightarrow> bool" where
  "accepts e ij = insideRectangle e (latticePointOf e ij)"

definition remaining :: "LatticePointEnumerator \<Rightarrow> (int \<times> int) list" where
  "remaining e =
     (if lpe_i e \<le> lpe_imax e
      then map (Pair (lpe_i e)) [lpe_j e..lpe_jmax e] @
           concat (map (\<lambda>i. map (Pair i) [lpe_jmin e..lpe_jmax e]) [lpe_i e + 1..lpe_imax e])
      else [])"

lemma accepts_update [simp]:
  "accepts (e\<lparr>lpe_j := k\<rparr>) = accepts e"
  "accepts (e\<lparr>lpe_i := k\<rparr>) = accepts e"
  "latticePointOf (e\<lparr>lpe_j := k\<rparr>) = latticePointOf e"
  "latticePointOf (e\<lparr>lpe_i := k\<rparr>) = latticePointOf e"
  by (simp_all add: accepts_def latticePointOf_def insideRectangle_def fun_eq_iff)

lemma getNext_inner_found: "getNext_inner e True out = (True, out, e)"
  by (subst getNext_inner.simps) simp

lemma getNext_inner_spec:
  "getNext_inner e found out = (found', out', e') \<Longrightarrow> \<not> found \<Longrightarrow>
   (found' \<longrightarrow> (\<exists>j. lpe_j e \<le> j \<and> j \<le> lpe_jmax e \<and> accepts e (lpe_i e, j) \<and>
                   (\<forall>j'. lpe_j e \<le> j' \<and> j' < j \<longrightarrow> \<not> accepts e (lpe_i e, j')) \<and>
                   out' = latticePointOf e (lpe_i e, j) \<and> lpe_j e' = j + 1)) \<and>
   (\<not> found' \<longrightarrow> (\<forall>j'. lpe_j e \<le> j' \<and> j' \<le> lpe_jmax e \<longrightarrow> \<not> accepts e (lpe_i e, j')) \<and>
                   out' = out)"
proof (induction e found out rule: getNext_inner.induct)
  case (1 e found out)
  from "1.prems"(2) have nf: "\<not> found" .
  show ?case
  proof (cases "lpe_j e \<le> lpe_jmax e")
    case False
    with nf "1.prems"(1) have "found' = found \<and> out' = out \<and> e' = e"
      by (subst (asm) getNext_inner.simps) simp
    with False nf show ?thesis by auto
  next
    case True
    then have c: "\<not> found \<and> lpe_j e \<le> lpe_jmax e" using nf by simp
    define p where "p = transform2D (lpe_latticeBasis e) (real_of_int (lpe_i e), real_of_int (lpe_j e))"
    have p: "p = latticePointOf e (lpe_i e, lpe_j e)" by (simp add: p_def latticePointOf_def)
    show ?thesis
    proof (cases "insideRectangle e p")
      case inside: True
      have "getNext_inner e found out = getNext_inner (e\<lparr>lpe_j := lpe_j e + 1\<rparr>) True p"
        using c inside by (subst getNext_inner.simps) (simp add: p_def Let_def)
      with "1.prems"(1) have "found' = True \<and> out' = p \<and> e' = e\<lparr>lpe_j := lpe_j e + 1\<rparr>"
        by (simp add: getNext_inner_found)
      moreover have "accepts e (lpe_i e, lpe_j e)" using inside p by (simp add: accepts_def)
      ultimately show ?thesis using True p by auto
    next
      case outside: False
      have "getNext_inner e found out = getNext_inner (e\<lparr>lpe_j := lpe_j e + 1\<rparr>) found out"
        using c outside by (subst getNext_inner.simps) (simp add: p_def Let_def)
      with "1.prems"(1)
      have g: "getNext_inner (e\<lparr>lpe_j := lpe_j e + 1\<rparr>) found out = (found', out', e')" by simp
      have rej: "\<not> accepts e (lpe_i e, lpe_j e)" using outside p by (simp add: accepts_def)
      note ih = "1.IH"(2) [OF c p_def outside g nf]
      show ?thesis
      proof (intro conjI impI)
        assume f: "found'"
        with ih obtain j where j: "lpe_j e + 1 \<le> j" "j \<le> lpe_jmax e" "accepts e (lpe_i e, j)"
          "\<forall>j'. lpe_j e + 1 \<le> j' \<and> j' < j \<longrightarrow> \<not> accepts e (lpe_i e, j')"
          "out' = latticePointOf e (lpe_i e, j)" "lpe_j e' = j + 1"
          by auto
        have "\<forall>j'. lpe_j e \<le> j' \<and> j' < j \<longrightarrow> \<not> accepts e (lpe_i e, j')"
        proof (intro allI impI)
          fix j' assume "lpe_j e \<le> j' \<and> j' < j"
          then consider "j' = lpe_j e" | "lpe_j e + 1 \<le> j' \<and> j' < j" by linarith
          then show "\<not> accepts e (lpe_i e, j')" using rej j(4) by cases auto
        qed
        with j show "\<exists>j. lpe_j e \<le> j \<and> j \<le> lpe_jmax e \<and> accepts e (lpe_i e, j) \<and>
                   (\<forall>j'. lpe_j e \<le> j' \<and> j' < j \<longrightarrow> \<not> accepts e (lpe_i e, j')) \<and>
                   out' = latticePointOf e (lpe_i e, j) \<and> lpe_j e' = j + 1"
          by (intro exI [of _ j]) auto
      next
        assume f: "\<not> found'"
        with ih have a: "\<forall>j'. lpe_j e + 1 \<le> j' \<and> j' \<le> lpe_jmax e \<longrightarrow> \<not> accepts e (lpe_i e, j')"
          and o: "out' = out" by auto
        show "\<forall>j'. lpe_j e \<le> j' \<and> j' \<le> lpe_jmax e \<longrightarrow> \<not> accepts e (lpe_i e, j')"
        proof (intro allI impI)
          fix j' assume "lpe_j e \<le> j' \<and> j' \<le> lpe_jmax e"
          then consider "j' = lpe_j e" | "lpe_j e + 1 \<le> j' \<and> j' \<le> lpe_jmax e" by linarith
          then show "\<not> accepts e (lpe_i e, j')" using rej a by cases auto
        qed
        show "out' = out" by (rule o)
      qed
    qed
  qed
qed

definition rowsFrom :: "LatticePointEnumerator \<Rightarrow> int \<Rightarrow> (int \<times> int) list" where
  "rowsFrom e i = concat (map (\<lambda>i. map (Pair i) [lpe_jmin e..lpe_jmax e]) [i..lpe_imax e])"

lemma rowsFrom_unfold:
  "rowsFrom e i = (if i \<le> lpe_imax e
                   then map (Pair i) [lpe_jmin e..lpe_jmax e] @ rowsFrom e (i + 1) else [])"
  by (simp add: rowsFrom_def upto_rec1 [of i "lpe_imax e"])

lemma rowsFrom_update [simp]:
  "rowsFrom (e\<lparr>lpe_j := k\<rparr>) = rowsFrom e"
  "rowsFrom (e\<lparr>lpe_i := k\<rparr>) = rowsFrom e"
  by (simp_all add: rowsFrom_def fun_eq_iff)

lemma remaining_alt:
  "remaining e = (if lpe_i e \<le> lpe_imax e
                  then map (Pair (lpe_i e)) [lpe_j e..lpe_jmax e] @ rowsFrom e (lpe_i e + 1)
                  else [])"
  by (simp add: remaining_def rowsFrom_def)

lemma remaining_next_row:
  "remaining (e\<lparr>lpe_i := i, lpe_j := lpe_jmin e\<rparr>) = rowsFrom e i"
  by (simp add: remaining_alt rowsFrom_unfold [of e i])

lemma getNext_outer_found: "getNext_outer e True out = (True, out, e)"
  by (subst getNext_outer.simps) simp

lemma getNext_outer_spec:
  "getNext_outer e found out = (found', out', e') \<Longrightarrow> \<not> found \<Longrightarrow>
   (found' \<longrightarrow> (\<exists>pre ij. remaining e = pre @ ij # remaining e' \<and>
                     (\<forall>x \<in> set pre. \<not> accepts e x) \<and> accepts e ij \<and>
                     out' = latticePointOf e ij)) \<and>
   (\<not> found' \<longrightarrow> (\<forall>x \<in> set (remaining e). \<not> accepts e x) \<and> out' = out) \<and>
   e' = e\<lparr>lpe_i := lpe_i e', lpe_j := lpe_j e'\<rparr>"
proof (induction e found out rule: getNext_outer.induct)
  case (1 e found out)
  from "1.prems"(2) have nf: "\<not> found" .
  show ?case
  proof (cases "lpe_i e \<le> lpe_imax e")
    case False
    with nf "1.prems"(1) have "found' = found \<and> out' = out \<and> e' = e"
      by (subst (asm) getNext_outer.simps) simp
    with False nf show ?thesis by (simp add: remaining_alt)
  next
    case True
    then have c: "\<not> found \<and> lpe_i e \<le> lpe_imax e" using nf by simp
    obtain found1 out1 e1 where g: "getNext_inner e found out = (found1, out1, e1)"
      by (cases "getNext_inner e found out") auto
    note st = getNext_inner_static [OF g]
    from st have e1: "e1 = e\<lparr>lpe_j := lpe_j e1\<rparr>" by simp
    note sp = getNext_inner_spec [OF g nf]
    show ?thesis
    proof (cases found1)
      case f1: True
      with sp obtain j0 where j0: "lpe_j e \<le> j0" "j0 \<le> lpe_jmax e" "accepts e (lpe_i e, j0)"
          "\<forall>j'. lpe_j e \<le> j' \<and> j' < j0 \<longrightarrow> \<not> accepts e (lpe_i e, j')"
          "out1 = latticePointOf e (lpe_i e, j0)" "lpe_j e1 = j0 + 1"
        by auto
      define e2 where "e2 = (if lpe_j e1 > lpe_jmax e1
                              then e1\<lparr>lpe_i := lpe_i e1 + 1, lpe_j := lpe_jmin e1\<rparr> else e1)"
      have "getNext_outer e found out = getNext_outer e2 found1 out1"
        using c g by (subst getNext_outer.simps) (simp add: e2_def)
      with "1.prems"(1) f1 have res: "found' = True" "out' = out1" "e' = e2"
        by (simp_all add: getNext_outer_found)
      have split: "[lpe_j e..lpe_jmax e] = [lpe_j e..j0 - 1] @ j0 # [j0 + 1..lpe_jmax e]"
        using j0(1,2) by (rule upto_split3)
      have rem2: "remaining e2 = map (Pair (lpe_i e)) [j0 + 1..lpe_jmax e] @ rowsFrom e (lpe_i e + 1)"
      proof (cases "lpe_j e1 > lpe_jmax e1")
        case True
        then have "e2 = e\<lparr>lpe_j := lpe_j e1, lpe_i := lpe_i e + 1, lpe_j := lpe_jmin e\<rparr>"
          using e1 by (simp add: e2_def) (metis LatticePointEnumerator.select_convs(5,9,11)
              LatticePointEnumerator.surjective LatticePointEnumerator.update_convs(12))
        moreover from True j0(6) e1 have "lpe_jmax e < j0 + 1"
          by (metis LatticePointEnumerator.select_convs(10) LatticePointEnumerator.surjective
              LatticePointEnumerator.update_convs(12))
        ultimately show ?thesis
          using remaining_next_row [of "e\<lparr>lpe_j := lpe_j e1\<rparr>" "lpe_i e + 1"] by simp
      next
        case False
        then have "e2 = e\<lparr>lpe_j := j0 + 1\<rparr>" using e1 j0(6) by (simp add: e2_def)
        then show ?thesis using True by (simp add: remaining_alt)
      qed
      have "remaining e = map (Pair (lpe_i e)) [lpe_j e..j0 - 1] @ (lpe_i e, j0) # remaining e2"
        using True split rem2 by (simp add: remaining_alt)
      moreover have "\<forall>x \<in> set (map (Pair (lpe_i e)) [lpe_j e..j0 - 1]). \<not> accepts e x"
        using j0(4) by auto
      moreover have "e2 = e\<lparr>lpe_i := lpe_i e2, lpe_j := lpe_j e2\<rparr>"
        using e1 by (cases e, cases e1) (auto simp: e2_def)
      ultimately show ?thesis using res j0(3,5) by blast
    next
      case f1: False
      with sp st have rej: "\<forall>j'. lpe_j e \<le> j' \<and> j' \<le> lpe_jmax e \<longrightarrow> \<not> accepts e (lpe_i e, j')"
        and o1: "out1 = out" and jgt: "lpe_jmax e < lpe_j e1" by auto
      from jgt getNext_inner_fields(4) [OF g] have jgt1: "lpe_jmax e1 < lpe_j e1" by simp
      define e2 where "e2 = e1\<lparr>lpe_i := lpe_i e1 + 1, lpe_j := lpe_jmin e1\<rparr>"
      have unf: "getNext_outer e found out = getNext_outer e2 found1 out1"
        using c g jgt1 by (subst getNext_outer.simps) (simp add: e2_def)
      with "1.prems"(1) have g2: "getNext_outer e2 found1 out1 = (found', out', e')" by simp
      have x: "(found1, out1, e1) = getNext_inner e found out" using g by simp
      note ih = "1.IH"(1) [OF c x refl jgt1 g2 [unfolded e2_def] f1]
      have e2: "e2 = e\<lparr>lpe_j := lpe_j e1, lpe_i := lpe_i e + 1, lpe_j := lpe_jmin e\<rparr>"
        using e1 by (cases e, cases e1) (auto simp: e2_def)
      have rem: "remaining e = map (Pair (lpe_i e)) [lpe_j e..lpe_jmax e] @ remaining e2"
        using True remaining_next_row [of "e\<lparr>lpe_j := lpe_j e1\<rparr>" "lpe_i e + 1"]
        by (simp add: e2 remaining_alt [of e])
      have acc: "accepts e2 = accepts e" "latticePointOf e2 = latticePointOf e"
        by (simp_all add: e2)
      have rowrej: "\<forall>x \<in> set (map (Pair (lpe_i e)) [lpe_j e..lpe_jmax e]). \<not> accepts e x"
        using rej by auto
      from ih have ih1: "found' \<longrightarrow> (\<exists>pre ij. remaining e2 = pre @ ij # remaining e' \<and>
                     (\<forall>x \<in> set pre. \<not> accepts e x) \<and> accepts e ij \<and>
                     out' = latticePointOf e ij)"
        and ih2: "\<not> found' \<longrightarrow> (\<forall>x \<in> set (remaining e2). \<not> accepts e x) \<and> out' = out"
        and ih3: "e' = e2\<lparr>lpe_i := lpe_i e', lpe_j := lpe_j e'\<rparr>"
        unfolding e2_def [symmetric] acc o1 by auto
      have "e' = e\<lparr>lpe_i := lpe_i e', lpe_j := lpe_j e'\<rparr>"
        using ih3 e2 by (cases e, cases e') auto
      moreover have "found' \<longrightarrow> (\<exists>pre ij. remaining e = pre @ ij # remaining e' \<and>
                     (\<forall>x \<in> set pre. \<not> accepts e x) \<and> accepts e ij \<and>
                     out' = latticePointOf e ij)"
      proof
        assume found'
        with ih1 obtain pre ij where p: "remaining e2 = pre @ ij # remaining e'"
          "\<forall>x \<in> set pre. \<not> accepts e x" "accepts e ij" "out' = latticePointOf e ij" by auto
        have "remaining e = (map (Pair (lpe_i e)) [lpe_j e..lpe_jmax e] @ pre) @ ij # remaining e'"
          using rem p(1) by simp
        moreover have "\<forall>x \<in> set (map (Pair (lpe_i e)) [lpe_j e..lpe_jmax e] @ pre). \<not> accepts e x"
          using rowrej p(2) by auto
        ultimately show "\<exists>pre ij. remaining e = pre @ ij # remaining e' \<and>
                     (\<forall>x \<in> set pre. \<not> accepts e x) \<and> accepts e ij \<and>
                     out' = latticePointOf e ij"
          using p(3,4) by blast
      qed
      moreover have "\<not> found' \<longrightarrow> (\<forall>x \<in> set (remaining e). \<not> accepts e x) \<and> out' = out"
        using ih2 rem rowrej by auto
      ultimately show ?thesis by blast
    qed
  qed
qed

lemma latticePoints_getNext_spec:
  assumes "latticePoints_getNext e out = (found', out', e')"
  shows "(found' \<longrightarrow> (\<exists>pre ij. remaining e = pre @ ij # remaining e' \<and>
                     (\<forall>x \<in> set pre. \<not> accepts e x) \<and> accepts e ij \<and>
                     out' = latticePointOf e ij)) \<and>
         (\<not> found' \<longrightarrow> (\<forall>x \<in> set (remaining e). \<not> accepts e x) \<and> out' = out) \<and>
         e' = e\<lparr>lpe_i := lpe_i e', lpe_j := lpe_j e'\<rparr>"
  using getNext_outer_spec [of e False out found' out' e'] assms
  by (simp add: latticePoints_getNext_def)

lemma latticePoints_getNext_decreases:
  assumes "latticePoints_getNext e out = (True, out', e')"
  shows "length (remaining e') < length (remaining e)"
proof -
  from latticePoints_getNext_spec [OF assms] obtain pre ij where
    "remaining e = pre @ ij # remaining e'" by auto
  then show ?thesis by simp
qed

lemma latticePoints_getNext_same:
  assumes "latticePoints_getNext e out = (found', out', e')"
  shows "accepts e' = accepts e" "latticePointOf e' = latticePointOf e"
proof -
  from latticePoints_getNext_spec [OF assms]
  have "e' = e\<lparr>lpe_i := lpe_i e', lpe_j := lpe_j e'\<rparr>" by simp
  then have "accepts e' = accepts (e\<lparr>lpe_i := lpe_i e', lpe_j := lpe_j e'\<rparr>)"
    "latticePointOf e' = latticePointOf (e\<lparr>lpe_i := lpe_i e', lpe_j := lpe_j e'\<rparr>)" by simp_all
  then show "accepts e' = accepts e" "latticePointOf e' = latticePointOf e" by simp_all
qed



section \<open>The probes\<close>

text \<open>
  The loop of the existence probe over the lattice points near one image:
  \<open>while (!isZero && latticePoints.getNext(&latticePoint))\<close>.
\<close>

function isZeroLoop ::
  "point2 \<Rightarrow> real \<Rightarrow> LatticePointEnumerator \<Rightarrow> bool \<Rightarrow> point2 \<Rightarrow> bool" where
  "isZeroLoop pointOnPlane rSquared e isZero latticePoint =
     (if \<not> isZero
      then (case latticePoints_getNext e latticePoint of (found, lp, e') \<Rightarrow>
              if found
              then isZeroLoop pointOnPlane rSquared e'
                     ((fst lp - fst pointOnPlane)\<^sup>2 + (snd lp - snd pointOnPlane)\<^sup>2 \<le> rSquared) lp
              else isZero)
      else isZero)"
  by pat_completeness auto

termination
proof (relation "measure (\<lambda>(pointOnPlane, rSquared, e, isZero, latticePoint). length (remaining e))")
  show "wf (measure (\<lambda>(pointOnPlane :: point2, rSquared :: real, e, isZero :: bool,
                       latticePoint :: point2). length (remaining e)))" by simp
next
  fix pointOnPlane :: point2 and rSquared :: real and e :: LatticePointEnumerator
    and isZero :: bool and latticePoint :: point2 and found y lp e'
  assume "(found, y) = latticePoints_getNext e latticePoint" "(lp, e') = y" "found"
  then have "latticePoints_getNext e latticePoint = (True, lp, e')" by simp
  from latticePoints_getNext_decreases [OF this]
  show "((pointOnPlane, rSquared, e',
          (fst lp - fst pointOnPlane)\<^sup>2 + (snd lp - snd pointOnPlane)\<^sup>2 \<le> rSquared, lp),
         pointOnPlane, rSquared, e, isZero, latticePoint)
        \<in> measure (\<lambda>(pointOnPlane, rSquared, e, isZero, latticePoint). length (remaining e))"
    by simp
qed

declare isZeroLoop.simps [simp del]

text \<open>
  The test in the body of the loop of the disqualification probe, and that loop:
  \<open>while (!foundLatticeCollision && latticePoints.getNext(&latticePoint))\<close>.
\<close>

definition latticeCollision :: "real \<Rightarrow> real \<Rightarrow> real \<Rightarrow> real \<Rightarrow> real \<Rightarrow> point2 \<Rightarrow> bool" where
  "latticeCollision xmin xmax ymin ymax rSquared latticePoint =
     (let nearestX = max xmin (min (fst latticePoint) xmax);
          nearestY = max ymin (min (snd latticePoint) ymax)
      in (fst latticePoint - nearestX)\<^sup>2 + (snd latticePoint - nearestY)\<^sup>2 < rSquared)"

function collisionLoop ::
  "real \<Rightarrow> real \<Rightarrow> real \<Rightarrow> real \<Rightarrow> real \<Rightarrow> LatticePointEnumerator \<Rightarrow> bool \<Rightarrow> point2 \<Rightarrow> bool" where
  "collisionLoop xmin xmax ymin ymax rSquared e foundLatticeCollision latticePoint =
     (if \<not> foundLatticeCollision
      then (case latticePoints_getNext e latticePoint of (found, lp, e') \<Rightarrow>
              if found
              then collisionLoop xmin xmax ymin ymax rSquared e'
                     (if latticeCollision xmin xmax ymin ymax rSquared lp then True
                      else foundLatticeCollision) lp
              else foundLatticeCollision)
      else foundLatticeCollision)"
  by pat_completeness auto

termination
proof (relation "measure (\<lambda>(xmin, xmax, ymin, ymax, rSquared, e, f, latticePoint). length (remaining e))")
  show "wf (measure (\<lambda>(xmin :: real, xmax :: real, ymin :: real, ymax :: real, rSquared :: real,
                       e, f :: bool, latticePoint :: point2). length (remaining e)))" by simp
next
  fix xmin xmax ymin ymax rSquared :: real and e :: LatticePointEnumerator
    and foundLatticeCollision :: bool and latticePoint :: point2 and found y lp e'
  assume "(found, y) = latticePoints_getNext e latticePoint" "(lp, e') = y" "found"
  then have "latticePoints_getNext e latticePoint = (True, lp, e')" by simp
  from latticePoints_getNext_decreases [OF this]
  show "((xmin, xmax, ymin, ymax, rSquared, e',
          (if latticeCollision xmin xmax ymin ymax rSquared lp then True
           else foundLatticeCollision), lp),
         xmin, xmax, ymin, ymax, rSquared, e, foundLatticeCollision, latticePoint)
        \<in> measure (\<lambda>(xmin, xmax, ymin, ymax, rSquared, e, f, latticePoint). length (remaining e))"
    by simp
qed

declare collisionLoop.simps [simp del]

text \<open>
  The vertex enumerator. Its only mutable field is the counter \<open>bitvector\<close>, an
  \<open>unsigned int\<close>; \<open>upper\<close> is \<open>pow(2, numDims)\<close>. The shift \<open>0x1 << bit\<close> is
  taken on 32 bits. A loop over the vertices does not end when \<open>numDims\<close> is 32 or
  more, because the counter wraps before it reaches \<open>upper\<close>; the loops over it are
  therefore partial functions, with \<open>None\<close> for a loop that does not return.
\<close>

definition vertices_getNext ::
  "real list \<Rightarrow> real list \<Rightarrow> nat \<Rightarrow> 32 word \<Rightarrow> real list \<Rightarrow> bool \<times> real list \<times> 32 word" where
  "vertices_getNext x0 dims numDims bitvector out =
     (if 2 ^ numDims \<le> unat bitvector then (False, out, bitvector)
      else (True,
            fold (\<lambda>bit out.
                    let out1 = out[bit := x0 ! bit]
                    in if bitvector AND push_bit bit 1 \<noteq> 0
                       then out1[bit := out1 ! bit + dims ! bit] else out1)
                 [0..<numDims] out,
            bitvector + 1))"

fun vertexDisqualifiedLoop ::
  "matrix list \<Rightarrow> matrix list \<Rightarrow> matrix list \<Rightarrow> real \<Rightarrow> real \<Rightarrow> real list \<Rightarrow> nat list \<Rightarrow> bool" where
  "vertexDisqualifiedLoop domainToPlane latticeBasis inverseLatticeBasis r rSquared vertexBuffer [] = False"
| "vertexDisqualifiedLoop domainToPlane latticeBasis inverseLatticeBasis r rSquared vertexBuffer
     (iModule # rest) =
     (let pointOnPlane = transformND (domainToPlane ! iModule) vertexBuffer;
          latticePoints = newLatticePointEnumerator (latticeBasis ! iModule)
                            (inverseLatticeBasis ! iModule)
                            (fst pointOnPlane - r) (snd pointOnPlane - r) (2 * r) (2 * r);
          isZero = isZeroLoop pointOnPlane rSquared latticePoints False (0, 0)
      in if \<not> isZero then True
         else vertexDisqualifiedLoop domainToPlane latticeBasis inverseLatticeBasis r rSquared
                vertexBuffer rest)"

partial_function (option) tryFindGridCodeZero_loop ::
  "matrix list \<Rightarrow> matrix list \<Rightarrow> matrix list \<Rightarrow> nat \<Rightarrow> real list \<Rightarrow> real list \<Rightarrow> real \<Rightarrow> real \<Rightarrow>
   32 word \<Rightarrow> real list \<Rightarrow> (bool \<times> real list) option" where
  "tryFindGridCodeZero_loop domainToPlane latticeBasis inverseLatticeBasis numDims x0 dims r rSquared
     bitvector vertexBuffer =
     (case vertices_getNext x0 dims numDims bitvector vertexBuffer of (hasNext, vb, bv) \<Rightarrow>
        if hasNext
        then (if \<not> vertexDisqualifiedLoop domainToPlane latticeBasis inverseLatticeBasis r rSquared
                    vb [0..<length domainToPlane]
              then Some (True, vb)
              else tryFindGridCodeZero_loop domainToPlane latticeBasis inverseLatticeBasis numDims
                     x0 dims r rSquared bv vb)
        else Some (False, vb))"

definition tryFindGridCodeZero ::
  "matrix list \<Rightarrow> matrix list \<Rightarrow> matrix list \<Rightarrow> nat \<Rightarrow> real list \<Rightarrow> real list \<Rightarrow> real \<Rightarrow>
   real list \<Rightarrow> (bool \<times> real list) option" where
  "tryFindGridCodeZero domainToPlane latticeBasis inverseLatticeBasis numDims x0 dims
     readoutResolution vertexBuffer =
     (let r = readoutResolution / 2 + 0.000000001;
          rSquared = r\<^sup>2
      in tryFindGridCodeZero_loop domainToPlane latticeBasis inverseLatticeBasis numDims x0 dims
           r rSquared 0 vertexBuffer)"

partial_function (option) boundingBoxLoop ::
  "matrix \<Rightarrow> nat \<Rightarrow> real list \<Rightarrow> real list \<Rightarrow> 32 word \<Rightarrow> real list \<Rightarrow>
   real \<times> real \<times> real \<times> real \<Rightarrow> ((real \<times> real \<times> real \<times> real) \<times> real list) option" where
  "boundingBoxLoop M numDims x0 dims bitvector vertexBuffer bb =
     (case vertices_getNext x0 dims numDims bitvector vertexBuffer of (hasNext, vb, bv) \<Rightarrow>
        if hasNext
        then (case bb of (xmin, xmax, ymin, ymax) \<Rightarrow>
                let phase = transformND M vb
                in boundingBoxLoop M numDims x0 dims bv vb
                     (min xmin (fst phase), max xmax (fst phase),
                      min ymin (snd phase), max ymax (snd phase)))
        else Some (bb, vb))"

fun tryProveGridCodeZeroImpossible_loop ::
  "matrix list \<Rightarrow> matrix list \<Rightarrow> matrix list \<Rightarrow> nat \<Rightarrow> real list \<Rightarrow> real list \<Rightarrow> real \<Rightarrow>
   nat list \<Rightarrow> real list \<Rightarrow> (bool \<times> real list) option" where
  "tryProveGridCodeZeroImpossible_loop domainToPlane latticeBasis inverseLatticeBasis numDims x0 dims
     readoutResolution [] vertexBuffer = Some (False, vertexBuffer)"
| "tryProveGridCodeZeroImpossible_loop domainToPlane latticeBasis inverseLatticeBasis numDims x0 dims
     readoutResolution (iModule # rest) vertexBuffer =
     (case boundingBoxLoop (domainToPlane ! iModule) numDims x0 dims 0 vertexBuffer
             (numeric_limits_max, numeric_limits_lowest, numeric_limits_max, numeric_limits_lowest)
      of None \<Rightarrow> None
       | Some ((xmin, xmax, ymin, ymax), vb) \<Rightarrow>
           let r = readoutResolution / 2;
               rSquared = r\<^sup>2;
               latticePoints = newLatticePointEnumerator (latticeBasis ! iModule)
                                 (inverseLatticeBasis ! iModule)
                                 (xmin - r) (ymin - r) ((xmax - xmin) + 2 * r) ((ymax - ymin) + 2 * r);
               foundLatticeCollision =
                 collisionLoop xmin xmax ymin ymax rSquared latticePoints False (0, 0)
           in if \<not> foundLatticeCollision then Some (True, vb)
              else tryProveGridCodeZeroImpossible_loop domainToPlane latticeBasis
                     inverseLatticeBasis numDims x0 dims readoutResolution rest vb)"

definition tryProveGridCodeZeroImpossible ::
  "matrix list \<Rightarrow> matrix list \<Rightarrow> matrix list \<Rightarrow> nat \<Rightarrow> real list \<Rightarrow> real list \<Rightarrow> real \<Rightarrow>
   real list \<Rightarrow> (bool \<times> real list) option" where
  "tryProveGridCodeZeroImpossible domainToPlane latticeBasis inverseLatticeBasis numDims x0 dims
     readoutResolution vertexBuffer =
     tryProveGridCodeZeroImpossible_loop domainToPlane latticeBasis inverseLatticeBasis numDims
       x0 dims readoutResolution [0..<length domainToPlane] vertexBuffer"

section \<open>The recursive searcher\<close>

text \<open>
  \<open>std::max_element\<close> returns the first largest element. The cancel flag is an atomic
  that other threads write: \<open>shouldContinue k\<close> is the value that the \<open>k\<close>-th read
  of the flag sees, and the number of reads is threaded through. The two
  \<open>SwapValueRAII\<close> guards store the value they found and write it back when their
  scope is left. An index of the split outside of the arrays has no defined result.
\<close>

definition max_element :: "real list \<Rightarrow> nat \<Rightarrow> nat" where
  "max_element dims numDims =
     fold (\<lambda>i largest. if dims ! largest < dims ! i then i else largest) [1..<numDims] 0"

partial_function (option) findGridCodeZeroHelper ::
  "matrix list \<Rightarrow> matrix list \<Rightarrow> matrix list \<Rightarrow> nat \<Rightarrow> real list \<Rightarrow> real list \<Rightarrow> real \<Rightarrow>
   real list \<Rightarrow> (nat \<Rightarrow> bool) \<Rightarrow> nat \<Rightarrow> (bool \<times> real list \<times> real list \<times> real list \<times> nat) option" where
  "findGridCodeZeroHelper domainToPlane latticeBasis inverseLatticeBasis numDims x0 dims
     readoutResolution vertexBuffer shouldContinue reads =
     (if \<not> shouldContinue reads then Some (False, x0, dims, vertexBuffer, reads + 1)
      else
        Option.bind
          (tryFindGridCodeZero domainToPlane latticeBasis inverseLatticeBasis numDims x0 dims
             readoutResolution vertexBuffer)
          (\<lambda>(found, vb1).
            if found then Some (True, x0, dims, vb1, reads + 1)
            else
              Option.bind
                (tryProveGridCodeZeroImpossible domainToPlane latticeBasis inverseLatticeBasis
                   numDims x0 dims readoutResolution vb1)
                (\<lambda>(impossible, vb2).
                  if impossible then Some (False, x0, dims, vb2, reads + 1)
                  else
                    let iWidestDim = max_element dims numDims
                    in if \<not> (iWidestDim < length dims \<and> iWidestDim < length x0) then None
                       else
                         let initial1 = dims ! iWidestDim;
                             dims1 = dims[iWidestDim := dims ! iWidestDim / 2]
                         in Option.bind
                              (findGridCodeZeroHelper domainToPlane latticeBasis
                                 inverseLatticeBasis numDims x0 dims1 readoutResolution vb2
                                 shouldContinue (reads + 1))
                              (\<lambda>(found1, x0a, dimsa, vb3, reads1).
                                if found1
                                then Some (True, x0a, dimsa[iWidestDim := initial1], vb3, reads1)
                                else
                                  let initial2 = x0a ! iWidestDim;
                                      x0b = x0a[iWidestDim := x0a ! iWidestDim + dimsa ! iWidestDim]
                                  in Option.bind
                                       (findGridCodeZeroHelper domainToPlane latticeBasis
                                          inverseLatticeBasis numDims x0b dimsa
                                          readoutResolution vb3 shouldContinue reads1)
                                       (\<lambda>(found2, x0c, dimsc, vb4, reads2).
                                         Some (found2, x0c[iWidestDim := initial2],
                                               dimsc[iWidestDim := initial1], vb4, reads2))))))"

text \<open>
  The public entry point works on copies of \<open>x0\<close> and \<open>dims\<close>; the result carries
  the copies as they are on return, and the point buffer. A failed assertion is \<open>None\<close>.
\<close>

definition findGridCodeZero ::
  "matrix list \<Rightarrow> matrix list \<Rightarrow> real list \<Rightarrow> real list \<Rightarrow> real \<Rightarrow> real list option \<Rightarrow>
   (bool \<times> real list \<times> real list \<times> real list) option" where
  "findGridCodeZero domainToPlane latticeBasis x0 dims readoutResolution pointWithGridCodeZero =
     (let x0Copy = x0;
          dimsCopy = dims;
          shouldContinue = (\<lambda>reads. True);
          buffer = (case pointWithGridCodeZero of
                      Some b \<Rightarrow> b
                    | None \<Rightarrow> replicate (length dims) 0)
      in if length buffer \<noteq> length dims \<or> domainToPlane = [] \<or> length (domainToPlane ! 0) \<noteq> 2
         then None
         else
           let inverseLatticeBasis = map invert2DMatrix latticeBasis
           in Option.bind
                (findGridCodeZeroHelper domainToPlane latticeBasis inverseLatticeBasis
                   (length dimsCopy) x0Copy dimsCopy readoutResolution buffer shouldContinue 0)
                (\<lambda>(found, x0', dims', point, reads). Some (found, x0', dims', point)))"

declare tryFindGridCodeZero_loop.simps [code]
declare boundingBoxLoop.simps [code]
declare findGridCodeZeroHelper.simps [code]

section \<open>The expansion scheduler\<close>

record GridUniquenessState =
  domainToPlaneByModule :: "matrix list"
  latticeBasisByModule :: "matrix list"
  inverseLatticeBasisByModule :: "matrix list"
  readoutResolution :: real
  numDims :: nat
  baselineRadius :: real
  expansionRadiusGoal :: real
  expansionProgress :: "real list"
  expandingDim :: nat
  positiveExpand :: bool
  continueExpansion :: bool
  pointWithGridCodeZero :: "real list"
  foundPointBaselineRadius :: double
  numActiveThreads :: nat
  threadBaselineRadius :: "double list"
  threadQueryX0 :: "real list list"
  threadQueryDims :: "real list list"
  threadShouldContinue :: "bool list"
  threadRunning :: "bool list"

text \<open>
  \<open>recordResult\<close>. The vectors are indexed without a bounds check, so an index out of
  range has no defined result: the model returns \<open>None\<close> for such a call. The loop
  runs over \<open>threadBaselineRadius.size()\<close> and compares with the value of
  \<open>foundPointBaselineRadius\<close> that was just stored.
\<close>

definition stopOthers :: "nat \<Rightarrow> double list \<Rightarrow> double \<Rightarrow> bool list \<Rightarrow> bool list" where
  "stopOthers iThread radii best flags =
     fold (\<lambda>iOtherThread fl.
             if iOtherThread \<noteq> iThread \<and> fl ! iOtherThread \<and>
                double_ge (radii ! iOtherThread) best
             then fl[iOtherThread := False] else fl)
          [0..<length radii] flags"

definition recordResult ::
  "nat \<Rightarrow> GridUniquenessState \<Rightarrow> real list \<Rightarrow> GridUniquenessState option" where
  "recordResult iThread state point =
     (if iThread < length (threadBaselineRadius state) \<and>
         length (threadBaselineRadius state) \<le> length (threadShouldContinue state)
      then
        (let s1 = state\<lparr>continueExpansion := False\<rparr> in
         if double_less (threadBaselineRadius s1 ! iThread) (foundPointBaselineRadius s1)
         then
           (let s2 = s1\<lparr>foundPointBaselineRadius := threadBaselineRadius s1 ! iThread\<rparr>;
                s3 = s2\<lparr>pointWithGridCodeZero := point\<rparr>
            in Some (s3\<lparr>threadShouldContinue :=
                       stopOthers iThread (threadBaselineRadius s3)
                         (foundPointBaselineRadius s3) (threadShouldContinue s3)\<rparr>))
         else Some s1)
      else None)"

text \<open>
  \<open>claimNextTask\<close>. \<open>numDims - 1\<close> is computed on \<open>size_t\<close>; with
  \<open>numDims = 0\<close> it wraps to the largest value and the loop leaves every vector, so the
  model asks for \<open>0 < numDims\<close> together with the index ranges and returns \<open>None\<close>
  otherwise.
\<close>

definition fillAllButFinal :: "nat \<Rightarrow> real list \<Rightarrow> real list \<times> real list \<Rightarrow> real list \<times> real list" where
  "fillAllButFinal n progress xd =
     fold (\<lambda>iDim (x0, dims). (x0[iDim := - (progress ! iDim)], dims[iDim := 2 * progress ! iDim]))
          [0..<n - 1] xd"

definition claimNextTask :: "nat \<Rightarrow> GridUniquenessState \<Rightarrow> GridUniquenessState option" where
  "claimNextTask iThread state =
     (if iThread < length (threadBaselineRadius state) \<and>
         iThread < length (threadQueryX0 state) \<and>
         iThread < length (threadQueryDims state) \<and>
         0 < numDims state \<and>
         numDims state \<le> length (threadQueryX0 state ! iThread) \<and>
         numDims state \<le> length (threadQueryDims state ! iThread) \<and>
         numDims state \<le> length (expansionProgress state) \<and>
         expandingDim state < length (threadQueryX0 state ! iThread) \<and>
         expandingDim state < length (threadQueryDims state ! iThread) \<and>
         expandingDim state < length (expansionProgress state)
      then
        (let s1 = state\<lparr>threadBaselineRadius :=
                     (threadBaselineRadius state)[iThread := Finite (baselineRadius state)]\<rparr>;
             n = numDims s1;
             (x0a, dimsa) = fillAllButFinal n (expansionProgress s1)
                              (threadQueryX0 s1 ! iThread, threadQueryDims s1 ! iThread);
             dimsb = dimsa[n - 1 := expansionProgress s1 ! (n - 1)];
             x0b = x0a[n - 1 := 0];
             dimsc = dimsb[expandingDim s1 := expansionRadiusGoal s1 - baselineRadius s1];
             x0c = x0b[expandingDim s1 :=
                      (if positiveExpand s1 then baselineRadius s1 else - expansionRadiusGoal s1)];
             s2 = s1\<lparr>threadQueryX0 := (threadQueryX0 s1)[iThread := x0c],
                      threadQueryDims := (threadQueryDims s1)[iThread := dimsc]\<rparr>
         in
           if positiveExpand s2 \<and> expandingDim s2 < numDims s2 - 1
           then Some (s2\<lparr>positiveExpand := False\<rparr>)
           else
             (let s3 = s2\<lparr>positiveExpand := True\<rparr>;
                  s4 = s3\<lparr>expansionProgress :=
                          (expansionProgress s3)[expandingDim s3 := expansionRadiusGoal s3]\<rparr>;
                  s5 = s4\<lparr>expandingDim := expandingDim s4 + 1\<rparr>
              in if expandingDim s5 \<ge> numDims s5
                 then Some (s5\<lparr>baselineRadius := expansionRadiusGoal s5,
                               expansionRadiusGoal := expansionRadiusGoal s5 * 1.01,
                               expandingDim := 0\<rparr>)
                 else Some s5))
      else None)"

text \<open>
  The state that \<open>computeGridUniquenessHypercube\<close> builds before it starts the
  workers; \<open>numThreads\<close> stands for \<open>std::thread::hardware_concurrency()\<close>.
\<close>

definition initialState ::
  "matrix list \<Rightarrow> matrix list \<Rightarrow> real \<Rightarrow> real \<Rightarrow> nat \<Rightarrow> GridUniquenessState" where
  "initialState domainToPlane latticeBasis rho ignoredCenterDiameter numThreads =
     (let n = length (domainToPlane ! 0 ! 0) in
      \<lparr> domainToPlaneByModule = domainToPlane,
        latticeBasisByModule = latticeBasis,
        inverseLatticeBasisByModule = map invert2DMatrix latticeBasis,
        readoutResolution = rho,
        numDims = n,
        baselineRadius = ignoredCenterDiameter,
        expansionRadiusGoal = ignoredCenterDiameter * 2,
        expansionProgress = replicate n ignoredCenterDiameter,
        expandingDim = 0,
        positiveExpand = True,
        continueExpansion = True,
        pointWithGridCodeZero = replicate n 0,
        foundPointBaselineRadius = Finite numeric_limits_max,
        numActiveThreads = 0,
        threadBaselineRadius = replicate numThreads (Finite numeric_limits_max),
        threadQueryX0 = replicate numThreads (replicate n 0),
        threadQueryDims = replicate numThreads (replicate n 0),
        threadShouldContinue = replicate numThreads True,
        threadRunning = replicate numThreads True \<rparr>)"

text \<open>
  The two operations that workers perform on the shared state under the lock, and a run
  of them in the order in which the lock was taken. The value returned by
  \<open>computeGridUniquenessHypercube\<close> is read off the final state.
\<close>

datatype schedulerOp = ClaimNextTask nat | RecordResult nat "real list"

fun schedulerStep :: "schedulerOp \<Rightarrow> GridUniquenessState \<Rightarrow> GridUniquenessState option" where
  "schedulerStep (ClaimNextTask iThread) state = claimNextTask iThread state"
| "schedulerStep (RecordResult iThread point) state = recordResult iThread state point"

fun schedulerRun :: "schedulerOp list \<Rightarrow> GridUniquenessState \<Rightarrow> GridUniquenessState option" where
  "schedulerRun [] state = Some state"
| "schedulerRun (op # ops) state =
     (case schedulerStep op state of None \<Rightarrow> None | Some s \<Rightarrow> schedulerRun ops s)"

fun isClaim :: "schedulerOp \<Rightarrow> bool" where
  "isClaim (ClaimNextTask t) = True"
| "isClaim (RecordResult t p) = False"

definition uniquenessResult :: "GridUniquenessState \<Rightarrow> double \<times> real list" where
  "uniquenessResult state = (foundPointBaselineRadius state, pointWithGridCodeZero state)"

text \<open>The invariant behind the monotonicity of the radii.\<close>

definition schedulerInv :: "GridUniquenessState \<Rightarrow> bool" where
  "schedulerInv s = (baselineRadius s \<le> expansionRadiusGoal s \<and> 0 \<le> expansionRadiusGoal s)"

text \<open>A concrete state for the examples: one module, two dimensions, two workers.\<close>

definition exampleState :: GridUniquenessState where
  "exampleState = initialState [[[1, 0], [0, 1]]] [[[1, 0], [0, 1]]] (1/10) (1/2) 2"

text \<open>The example state after worker 0 claimed a task, and after it recorded a result.\<close>

definition exampleClaimed :: GridUniquenessState where
  "exampleClaimed =
     exampleState\<lparr>threadBaselineRadius := [Finite (1/2), Finite numeric_limits_max],
                  threadQueryX0 := [[1/2, 0], [0, 0]],
                  threadQueryDims := [[1/2, 1/2], [0, 0]],
                  positiveExpand := False\<rparr>"

definition exampleRecorded :: GridUniquenessState where
  "exampleRecorded =
     exampleClaimed\<lparr>continueExpansion := False,
                    foundPointBaselineRadius := Finite (1/2),
                    pointWithGridCodeZero := [7/10, 1/5],
                    threadShouldContinue := [True, False]\<rparr>"

section \<open>Vocabulary of the specification\<close>

text \<open>
  The notions in which the claims are stated: lattice points, distances, rectangles, the
  vertices of a hyperrectangle in the order of the bit mask, and the examples on which
  the theorems are instantiated.
\<close>

definition det2 :: "matrix \<Rightarrow> real" where
  "det2 M = M ! 0 ! 0 * M ! 1 ! 1 - M ! 0 ! 1 * M ! 1 ! 0"

definition latticePointAt :: "matrix \<Rightarrow> int \<Rightarrow> int \<Rightarrow> point2" where
  "latticePointAt L i j = transform2D L (real_of_int i, real_of_int j)"

definition inRectangle :: "real \<Rightarrow> real \<Rightarrow> real \<Rightarrow> real \<Rightarrow> point2 \<Rightarrow> bool" where
  "inRectangle x0 y0 w h p =
     (x0 \<le> fst p \<and> fst p \<le> x0 + w \<and> y0 \<le> snd p \<and> snd p \<le> y0 + h)"

definition euclideanDistance :: "point2 \<Rightarrow> point2 \<Rightarrow> real" where
  "euclideanDistance p q = sqrt ((fst p - fst q)\<^sup>2 + (snd p - snd q)\<^sup>2)"



definition vertex :: "real list \<Rightarrow> real list \<Rightarrow> nat \<Rightarrow> nat \<Rightarrow> real list" where
  "vertex x0 dims n k = map (\<lambda>b. if bit k b then x0 ! b + dims ! b else x0 ! b) [0..<n]"

definition nearLatticePoint :: "matrix \<Rightarrow> point2 \<Rightarrow> real \<Rightarrow> bool" where
  "nearLatticePoint L p r = (\<exists>i j. euclideanDistance p (latticePointAt L i j) \<le> r)"

definition vertexAccepted :: "matrix list \<Rightarrow> matrix list \<Rightarrow> real \<Rightarrow> real list \<Rightarrow> bool" where
  "vertexAccepted domainToPlane latticeBasis r v =
     (\<forall>m < length domainToPlane.
        nearLatticePoint (latticeBasis ! m) (transformND (domainToPlane ! m) v) r)"

definition inverseOnLattice :: "matrix \<Rightarrow> matrix \<Rightarrow> bool" where
  "inverseOnLattice Li L =
     (\<forall>i j. transform2D Li (latticePointAt L i j) = (real_of_int i, real_of_int j))"

definition unitLattice :: matrix where
  "unitLattice = [[1, 0], [0, 1]]"

definition lineToPlane :: matrix where
  "lineToPlane = [[1], [0]]"

definition boundingBoxStep ::
  "matrix \<Rightarrow> real list \<Rightarrow> real \<times> real \<times> real \<times> real \<Rightarrow> real \<times> real \<times> real \<times> real" where
  "boundingBoxStep M v bb =
     (case bb of (xmin, xmax, ymin, ymax) \<Rightarrow>
        (min xmin (fst (transformND M v)), max xmax (fst (transformND M v)),
         min ymin (snd (transformND M v)), max ymax (snd (transformND M v))))"

definition imageBoundingBox ::
  "matrix \<Rightarrow> real list \<Rightarrow> real list \<Rightarrow> nat \<Rightarrow> real \<times> real \<times> real \<times> real" where
  "imageBoundingBox M x0 dims n =
     fold (\<lambda>k bb. boundingBoxStep M (vertex x0 dims n k) bb) [0..<2 ^ n]
       (numeric_limits_max, numeric_limits_lowest, numeric_limits_max, numeric_limits_lowest)"

definition moduleCollision ::
  "matrix \<Rightarrow> matrix \<Rightarrow> nat \<Rightarrow> real list \<Rightarrow> real list \<Rightarrow> real \<Rightarrow> bool" where
  "moduleCollision M L n x0 dims r =
     (case imageBoundingBox M x0 dims n of (xmin, xmax, ymin, ymax) \<Rightarrow>
        \<exists>i j. inRectangle (xmin - r) (ymin - r) ((xmax - xmin) + 2 * r) ((ymax - ymin) + 2 * r)
                 (latticePointAt L i j) \<and>
               latticeCollision xmin xmax ymin ymax (r\<^sup>2) (latticePointAt L i j))"











section \<open>Properties of the lattice-point enumerator\<close>


section \<open>Properties of the probes\<close>

subsection \<open>The loops over the lattice points\<close>

lemma isZeroLoop_True: "isZeroLoop pointOnPlane rSquared e True latticePoint = True"
  by (subst isZeroLoop.simps) simp

lemma isZeroLoop_remaining:
  "isZeroLoop pointOnPlane rSquared e False latticePoint =
     (\<exists>ij \<in> set (remaining e). accepts e ij \<and>
        (fst (latticePointOf e ij) - fst pointOnPlane)\<^sup>2 +
        (snd (latticePointOf e ij) - snd pointOnPlane)\<^sup>2 \<le> rSquared)"
proof (induction "length (remaining e)" arbitrary: e latticePoint rule: less_induct)
  case less
  let ?t = "\<lambda>q. (fst q - fst pointOnPlane)\<^sup>2 + (snd q - snd pointOnPlane)\<^sup>2 \<le> rSquared"
  obtain found p e' where g: "latticePoints_getNext e latticePoint = (found, p, e')"
    by (cases "latticePoints_getNext e latticePoint") auto
  note sp = latticePoints_getNext_spec [OF g]
  show ?case
  proof (cases found)
    case False
    with sp have "\<forall>x \<in> set (remaining e). \<not> accepts e x" by simp
    moreover from g False have "isZeroLoop pointOnPlane rSquared e False latticePoint = False"
      by (subst isZeroLoop.simps) simp
    ultimately show ?thesis by auto
  next
    case True
    with sp obtain pre ij where r: "remaining e = pre @ ij # remaining e'"
      "\<forall>x \<in> set pre. \<not> accepts e x" "accepts e ij" "p = latticePointOf e ij" by auto
    from g True have unf: "isZeroLoop pointOnPlane rSquared e False latticePoint
        = isZeroLoop pointOnPlane rSquared e' (?t p) p"
      by (subst isZeroLoop.simps) simp
    show ?thesis
    proof (cases "?t p")
      case t: True
      with unf have "isZeroLoop pointOnPlane rSquared e False latticePoint"
        by (simp add: isZeroLoop_True)
      moreover have "ij \<in> set (remaining e)" using r(1) by simp
      ultimately show ?thesis using r(3,4) t by blast
    next
      case t: False
      from r(1) have "length (remaining e') < length (remaining e)" by simp
      from less [OF this, of p] latticePoints_getNext_same [OF g]
      have ih: "isZeroLoop pointOnPlane rSquared e' False p =
          (\<exists>ij \<in> set (remaining e'). accepts e ij \<and> ?t (latticePointOf e ij))" by simp
      have "(\<exists>x \<in> set (remaining e). accepts e x \<and> ?t (latticePointOf e x)) =
            (\<exists>x \<in> set (remaining e'). accepts e x \<and> ?t (latticePointOf e x))"
        using r t by auto
      with unf t ih show ?thesis by simp
    qed
  qed
qed

lemma collisionLoop_True:
  "collisionLoop xmin xmax ymin ymax rSquared e True latticePoint = True"
  by (subst collisionLoop.simps) simp

lemma collisionLoop_remaining:
  "collisionLoop xmin xmax ymin ymax rSquared e False latticePoint =
     (\<exists>ij \<in> set (remaining e). accepts e ij \<and>
        latticeCollision xmin xmax ymin ymax rSquared (latticePointOf e ij))"
proof (induction "length (remaining e)" arbitrary: e latticePoint rule: less_induct)
  case less
  let ?t = "latticeCollision xmin xmax ymin ymax rSquared"
  obtain found p e' where g: "latticePoints_getNext e latticePoint = (found, p, e')"
    by (cases "latticePoints_getNext e latticePoint") auto
  note sp = latticePoints_getNext_spec [OF g]
  show ?case
  proof (cases found)
    case False
    with sp have "\<forall>x \<in> set (remaining e). \<not> accepts e x" by simp
    moreover from g False
    have "collisionLoop xmin xmax ymin ymax rSquared e False latticePoint = False"
      by (subst collisionLoop.simps) simp
    ultimately show ?thesis by auto
  next
    case True
    with sp obtain pre ij where r: "remaining e = pre @ ij # remaining e'"
      "\<forall>x \<in> set pre. \<not> accepts e x" "accepts e ij" "p = latticePointOf e ij" by auto
    from g True have unf: "collisionLoop xmin xmax ymin ymax rSquared e False latticePoint
        = collisionLoop xmin xmax ymin ymax rSquared e' (?t p) p"
      by (subst collisionLoop.simps) simp
    show ?thesis
    proof (cases "?t p")
      case t: True
      with unf have "collisionLoop xmin xmax ymin ymax rSquared e False latticePoint"
        by (simp add: collisionLoop_True)
      moreover have "ij \<in> set (remaining e)" using r(1) by simp
      ultimately show ?thesis using r(3,4) t by blast
    next
      case t: False
      from r(1) have "length (remaining e') < length (remaining e)" by simp
      from less [OF this, of p] latticePoints_getNext_same [OF g]
      have ih: "collisionLoop xmin xmax ymin ymax rSquared e' False p =
          (\<exists>ij \<in> set (remaining e'). accepts e ij \<and> ?t (latticePointOf e ij))" by simp
      have "(\<exists>x \<in> set (remaining e). accepts e x \<and> ?t (latticePointOf e x)) =
            (\<exists>x \<in> set (remaining e'). accepts e x \<and> ?t (latticePointOf e x))"
        using r t by auto
      with unf t ih show ?thesis by simp
    qed
  qed
qed

lemma invert2DMatrix_left:
  assumes "det2 M \<noteq> 0"
  shows "transform2D (invert2DMatrix M) (transform2D M p) = p"
proof -
  define a where "a = M ! 0 ! 0"
  define b where "b = M ! 0 ! 1"
  define c where "c = M ! 1 ! 0"
  define d where "d = M ! 1 ! 1"
  define k where "k = 1 / (a * d - b * c)"
  define x where "x = fst p"
  define y where "y = snd p"
  have nz: "a * d - b * c \<noteq> 0" using assms by (simp add: det2_def a_def b_def c_def d_def)
  then have k: "k * (a * d - b * c) = 1" by (simp add: k_def)
  have 1: "k * d * (a * x + b * y) + - k * b * (c * x + d * y) = (k * (a * d - b * c)) * x"
    by (simp add: algebra_simps)
  have 2: "- k * c * (a * x + b * y) + k * a * (c * x + d * y) = (k * (a * d - b * c)) * y"
    by (simp add: algebra_simps)
  have "transform2D (invert2DMatrix M) (transform2D M p)
      = (k * d * (a * x + b * y) + - k * b * (c * x + d * y),
         - k * c * (a * x + b * y) + k * a * (c * x + d * y))"
    by (simp add: transform2D_def invert2DMatrix_def Let_def a_def b_def c_def d_def k_def
          x_def y_def)
  also have "\<dots> = (x, y)" unfolding 1 2 k by simp
  finally show ?thesis by (simp add: x_def y_def)
qed

lemma linear_on_rectangle:
  fixes a b :: real
  assumes "x0 \<le> x" "x \<le> x0 + w" "y0 \<le> y" "y \<le> y0 + h"
  shows "min (min (min (a * x0 + b * y0) (a * (x0 + w) + b * y0)) (a * x0 + b * (y0 + h)))
             (a * (x0 + w) + b * (y0 + h)) \<le> a * x + b * y"
    and "a * x + b * y \<le>
         max (max (max (a * x0 + b * y0) (a * (x0 + w) + b * y0)) (a * x0 + b * (y0 + h)))
             (a * (x0 + w) + b * (y0 + h))"
proof -
  have ax: "a * x0 \<le> a * x \<and> a * x \<le> a * (x0 + w) \<or> a * (x0 + w) \<le> a * x \<and> a * x \<le> a * x0"
  proof (cases "0 \<le> a")
    case True
    with assms(1,2) show ?thesis by (simp add: mult_left_mono)
  next
    case False
    then have "a \<le> 0" by simp
    with assms(1,2) show ?thesis by (simp add: mult_left_mono_neg)
  qed
  have byy: "b * y0 \<le> b * y \<and> b * y \<le> b * (y0 + h) \<or> b * (y0 + h) \<le> b * y \<and> b * y \<le> b * y0"
  proof (cases "0 \<le> b")
    case True
    with assms(3,4) show ?thesis by (simp add: mult_left_mono)
  next
    case False
    then have "b \<le> 0" by simp
    with assms(3,4) show ?thesis by (simp add: mult_left_mono_neg)
  qed
  show "min (min (min (a * x0 + b * y0) (a * (x0 + w) + b * y0)) (a * x0 + b * (y0 + h)))
             (a * (x0 + w) + b * (y0 + h)) \<le> a * x + b * y"
    using ax byy by (auto simp: min_def)
  show "a * x + b * y \<le>
         max (max (max (a * x0 + b * y0) (a * (x0 + w) + b * y0)) (a * x0 + b * (y0 + h)))
             (a * (x0 + w) + b * (y0 + h))"
    using ax byy by (auto simp: max_def)
qed

lemma set_rowsFrom:
  "set (rowsFrom e k) =
     {(i, j). k \<le> i \<and> i \<le> lpe_imax e \<and> lpe_jmin e \<le> j \<and> j \<le> lpe_jmax e}"
  by (auto simp: rowsFrom_def)

lemma newLatticePointEnumerator_static:
  "lpe_latticeBasis (newLatticePointEnumerator L Li x0 y0 w h) = L"
  "lpe_x0 (newLatticePointEnumerator L Li x0 y0 w h) = x0"
  "lpe_y0 (newLatticePointEnumerator L Li x0 y0 w h) = y0"
  "lpe_width (newLatticePointEnumerator L Li x0 y0 w h) = w"
  "lpe_height (newLatticePointEnumerator L Li x0 y0 w h) = h"
  "lpe_i (newLatticePointEnumerator L Li x0 y0 w h)
     = lpe_imin (newLatticePointEnumerator L Li x0 y0 w h)"
  "lpe_j (newLatticePointEnumerator L Li x0 y0 w h)
     = lpe_jmin (newLatticePointEnumerator L Li x0 y0 w h)"
  by (simp_all add: newLatticePointEnumerator_def updateBoundingBox_def Let_def
        split: prod.splits)

lemma newLatticePointEnumerator_bounds:
  fixes L Li x0 y0 w h
  defines "e \<equiv> newLatticePointEnumerator L Li x0 y0 w h"
  defines "a \<equiv> Li ! 0 ! 0" and "b \<equiv> Li ! 0 ! 1" and "c \<equiv> Li ! 1 ! 0" and "d \<equiv> Li ! 1 ! 1"
  shows "lpe_imin e = \<lceil>min (min (min (min numeric_limits_max (a * x0 + b * y0))
                            (a * (x0 + w) + b * y0)) (a * x0 + b * (y0 + h)))
                            (a * (x0 + w) + b * (y0 + h))\<rceil>"
    and "lpe_imax e = \<lfloor>max (max (max (max numeric_limits_lowest (a * x0 + b * y0))
                            (a * (x0 + w) + b * y0)) (a * x0 + b * (y0 + h)))
                            (a * (x0 + w) + b * (y0 + h))\<rfloor>"
    and "lpe_jmin e = \<lceil>min (min (min (min numeric_limits_max (c * x0 + d * y0))
                            (c * (x0 + w) + d * y0)) (c * x0 + d * (y0 + h)))
                            (c * (x0 + w) + d * (y0 + h))\<rceil>"
    and "lpe_jmax e = \<lfloor>max (max (max (max numeric_limits_lowest (c * x0 + d * y0))
                            (c * (x0 + w) + d * y0)) (c * x0 + d * (y0 + h)))
                            (c * (x0 + w) + d * (y0 + h))\<rfloor>"
  by (simp_all add: e_def a_def b_def c_def d_def newLatticePointEnumerator_def
        updateBoundingBox_def transform2D_def Let_def)

lemma remaining_new:
  "set (remaining (newLatticePointEnumerator L Li x0 y0 w h)) =
     {(i, j). lpe_imin (newLatticePointEnumerator L Li x0 y0 w h) \<le> i \<and>
              i \<le> lpe_imax (newLatticePointEnumerator L Li x0 y0 w h) \<and>
              lpe_jmin (newLatticePointEnumerator L Li x0 y0 w h) \<le> j \<and>
              j \<le> lpe_jmax (newLatticePointEnumerator L Li x0 y0 w h)}"
proof -
  define e where "e = newLatticePointEnumerator L Li x0 y0 w h"
  have ij: "lpe_i e = lpe_imin e" "lpe_j e = lpe_jmin e"
    by (simp_all add: e_def newLatticePointEnumerator_static)
  have "remaining e = rowsFrom e (lpe_imin e)"
    using ij by (simp add: remaining_alt rowsFrom_unfold [of e "lpe_imin e"])
  then show ?thesis unfolding e_def [symmetric] by (simp add: set_rowsFrom)
qed

lemma newLatticePointEnumerator_complete_gen:
  assumes inv: "transform2D Li (transform2D L (real_of_int i, real_of_int j))
                  = (real_of_int i, real_of_int j)"
      and inside: "insideRectangle (newLatticePointEnumerator L Li x0 y0 w h)
                     (transform2D L (real_of_int i, real_of_int j))"
  shows "(i, j) \<in> set (remaining (newLatticePointEnumerator L Li x0 y0 w h))"
proof -
  define e where "e = newLatticePointEnumerator L Li x0 y0 w h"
  define p where "p = transform2D L (real_of_int i, real_of_int j)"
  define a where "a = Li ! 0 ! 0"
  define b where "b = Li ! 0 ! 1"
  define c where "c = Li ! 1 ! 0"
  define d where "d = Li ! 1 ! 1"
  from inv have i: "a * fst p + b * snd p = real_of_int i"
    and j: "c * fst p + d * snd p = real_of_int j"
    by (simp_all add: transform2D_def a_def b_def c_def d_def p_def)
  from inside have box: "x0 \<le> fst p" "fst p \<le> x0 + w" "y0 \<le> snd p" "snd p \<le> y0 + h"
    by (simp_all add: insideRectangle_def newLatticePointEnumerator_static p_def)
  note lx = linear_on_rectangle [OF box, of a b]
  note ly = linear_on_rectangle [OF box, of c d]
  note bd = newLatticePointEnumerator_bounds [of L Li x0 y0 w h, folded e_def a_def b_def c_def d_def]
  have "lpe_imin e \<le> i"
    unfolding bd(1) ceiling_le_iff using lx(1) i by (simp add: min_le_iff_disj)
  moreover have "i \<le> lpe_imax e"
    unfolding bd(2) le_floor_iff using lx(2) i by (simp add: le_max_iff_disj)
  moreover have "lpe_jmin e \<le> j"
    unfolding bd(3) ceiling_le_iff using ly(1) j by (simp add: min_le_iff_disj)
  moreover have "j \<le> lpe_jmax e"
    unfolding bd(4) le_floor_iff using ly(2) j by (simp add: le_max_iff_disj)
  ultimately show ?thesis
    using remaining_new [of L Li x0 y0 w h] by (simp add: e_def)
qed






subsection \<open>The collision test\<close>


lemma euclideanDistance_le_iff:
  "0 \<le> r \<Longrightarrow> euclideanDistance p q \<le> r \<longleftrightarrow> (fst p - fst q)\<^sup>2 + (snd p - snd q)\<^sup>2 \<le> r\<^sup>2"
  unfolding euclideanDistance_def
  by (metis real_sqrt_le_iff real_sqrt_abs abs_of_nonneg)








subsection \<open>The vertex enumerator\<close>

lemma upd_map_upt:
  "(map (\<lambda>i. if i < k then f i else g i) [0..<n])[k := f k]
     = map (\<lambda>i. if i < Suc k then f i else g i) [0..<n]"
proof (rule nth_equalityI)
  show "length ((map (\<lambda>i. if i < k then f i else g i) [0..<n])[k := f k])
      = length (map (\<lambda>i. if i < Suc k then f i else g i) [0..<n])" by simp
next
  fix i assume "i < length ((map (\<lambda>i. if i < k then f i else g i) [0..<n])[k := f k])"
  then have i: "i < n" by simp
  show "(map (\<lambda>i. if i < k then f i else g i) [0..<n])[k := f k] ! i
      = map (\<lambda>i. if i < Suc k then f i else g i) [0..<n] ! i"
  proof (cases "i = k")
    case True with i show ?thesis by simp
  next
    case False with i show ?thesis by (simp add: less_Suc_eq)
  qed
qed

lemma fold_update_upt:
  "fold (\<lambda>b out. out[b := f b]) [0..<m] out
     = map (\<lambda>b. if b < m then f b else out ! b) [0..<length out]"
proof (induction m)
  case 0
  show ?case by (simp add: map_nth)
next
  case (Suc m)
  show ?case
    using upd_map_upt [of m f "\<lambda>b. out ! b" "length out"]
    by (simp only: upt_Suc_append [OF le0] fold_append comp_apply Suc fold_simps)
qed

lemma vertex_step:
  "(let out1 = out[b := x ! b] in if c then out1[b := out1 ! b + d ! b] else out1)
     = out[b := (if c then x ! b + d ! b else x ! b)]"
  by (cases "b < length out") (simp_all add: Let_def list_update_beyond)

lemma bit_test_word:
  assumes "b < 32"
  shows "((word_of_nat k :: 32 word) AND push_bit b 1 \<noteq> 0) = bit k b"
proof -
  have "((word_of_nat k :: 32 word) AND push_bit b 1 \<noteq> 0) = bit (word_of_nat k :: 32 word) b"
    by (simp add: bit_iff_and_push_bit_not_eq_0)
  also have "\<dots> = bit k b" using assms by (simp add: bit_of_nat_iff)
  finally show ?thesis .
qed

lemma bit_test_word_pow:
  assumes "b < 32"
  shows "((word_of_nat k :: 32 word) AND 2 ^ b \<noteq> 0) = bit k b"
  using bit_test_word [OF assms, of k] by (simp add: push_bit_of_1)

lemma unat_word_of_nat_32:
  assumes "n < 32" "k \<le> 2 ^ n"
  shows "unat (word_of_nat k :: 32 word) = k"
proof -
  have "(2::nat) ^ n < 2 ^ 32" by (rule power_strict_increasing) (use assms(1) in simp_all)
  with assms(2) have "k < 2 ^ 32" by linarith
  then show ?thesis by (simp add: unat_of_nat)
qed

lemma vertices_getNext_next:
  assumes "n < 32" "k < 2 ^ n" "length out = n"
  shows "vertices_getNext x0 dims n (word_of_nat k) out
           = (True, vertex x0 dims n k, word_of_nat (Suc k))"
proof -
  have u: "unat (word_of_nat k :: 32 word) = k"
    using unat_word_of_nat_32 [OF assms(1)] assms(2) by simp
  have f: "(\<lambda>bit out. let out1 = out[bit := x0 ! bit]
                        in if (word_of_nat k :: 32 word) AND push_bit bit 1 \<noteq> 0
                           then out1[bit := out1 ! bit + dims ! bit] else out1)
         = (\<lambda>b out. out[b := (if (word_of_nat k :: 32 word) AND push_bit b 1 \<noteq> 0
                                then x0 ! b + dims ! b else x0 ! b)])"
    by (intro ext) (rule vertex_step)
  have "fold (\<lambda>b out. out[b := (if (word_of_nat k :: 32 word) AND push_bit b 1 \<noteq> 0
                                then x0 ! b + dims ! b else x0 ! b)]) [0..<n] out
        = vertex x0 dims n k"
    unfolding fold_update_upt vertex_def using assms(1,3)
    by (auto simp: bit_test_word bit_test_word_pow)
  with u assms(2) show ?thesis
    unfolding vertices_getNext_def f by simp
qed

lemma vertices_getNext_done:
  assumes "n < 32"
  shows "vertices_getNext x0 dims n (word_of_nat (2 ^ n)) out = (False, out, word_of_nat (2 ^ n))"
  using unat_word_of_nat_32 [OF assms, of "2 ^ n"]
  by (simp add: vertices_getNext_def)

lemma vertices_getNext_done_pow:
  assumes "n < 32"
  shows "vertices_getNext x0 dims n (2 ^ n) out = (False, out, 2 ^ n)"
  using vertices_getNext_done [OF assms, of x0 dims out] by simp

lemma length_vertex [simp]: "length (vertex x0 dims n k) = n"
  by (simp add: vertex_def)

subsection \<open>The existence probe\<close>

lemma euclideanDistance_commute: "euclideanDistance p q = euclideanDistance q p"
  by (simp add: euclideanDistance_def power2_commute)

lemma euclideanDistance_nonneg: "0 \<le> euclideanDistance p q"
  by (simp add: euclideanDistance_def)

lemma euclideanDistance_coord:
  "\<bar>fst p - fst q\<bar> \<le> euclideanDistance p q" "\<bar>snd p - snd q\<bar> \<le> euclideanDistance p q"
proof -
  have "\<bar>fst p - fst q\<bar> = sqrt ((fst p - fst q)\<^sup>2)" by simp
  also have "\<dots> \<le> euclideanDistance p q"
    unfolding euclideanDistance_def by (rule real_sqrt_le_mono) simp
  finally show "\<bar>fst p - fst q\<bar> \<le> euclideanDistance p q" .
  have "\<bar>snd p - snd q\<bar> = sqrt ((snd p - snd q)\<^sup>2)" by simp
  also have "\<dots> \<le> euclideanDistance p q"
    unfolding euclideanDistance_def by (rule real_sqrt_le_mono) simp
  finally show "\<bar>snd p - snd q\<bar> \<le> euclideanDistance p q" .
qed

lemma isZeroLoop_near:
  assumes "inverseOnLattice Li L"
  shows "isZeroLoop p (r\<^sup>2) (newLatticePointEnumerator L Li (fst p - r) (snd p - r) (2 * r) (2 * r))
           False lp0
         = nearLatticePoint L p r"
proof -
  define e where "e = newLatticePointEnumerator L Li (fst p - r) (snd p - r) (2 * r) (2 * r)"
  have lp: "latticePointOf e ij = latticePointAt L (fst ij) (snd ij)" for ij
    by (simp add: latticePointOf_def latticePointAt_def e_def newLatticePointEnumerator_static)
  have ins: "insideRectangle e q = inRectangle (fst p - r) (snd p - r) (2 * r) (2 * r) q" for q
    by (auto simp: insideRectangle_def inRectangle_def e_def newLatticePointEnumerator_static)
  have acc: "accepts e ij = inRectangle (fst p - r) (snd p - r) (2 * r) (2 * r)
                              (latticePointAt L (fst ij) (snd ij))" for ij
    by (simp add: accepts_def lp ins)
  have "isZeroLoop p (r\<^sup>2) e False lp0 = nearLatticePoint L p r"
  proof
    assume "isZeroLoop p (r\<^sup>2) e False lp0"
    then obtain ij where ij: "accepts e ij"
      "(fst (latticePointOf e ij) - fst p)\<^sup>2 + (snd (latticePointOf e ij) - snd p)\<^sup>2 \<le> r\<^sup>2"
      by (auto simp: isZeroLoop_remaining)
    from ij(1) have "0 \<le> r" by (simp add: acc inRectangle_def)
    with ij(2) have "euclideanDistance (latticePointAt L (fst ij) (snd ij)) p \<le> r"
      by (simp add: euclideanDistance_le_iff lp)
    then show "nearLatticePoint L p r"
      unfolding nearLatticePoint_def euclideanDistance_commute [of p] by blast
  next
    assume "nearLatticePoint L p r"
    then obtain i j where d: "euclideanDistance (latticePointAt L i j) p \<le> r"
      unfolding nearLatticePoint_def euclideanDistance_commute [of p] by blast
    with euclideanDistance_nonneg [of "latticePointAt L i j" p] have r: "0 \<le> r" by linarith
    from d euclideanDistance_coord [of "latticePointAt L i j" p]
    have "\<bar>fst (latticePointAt L i j) - fst p\<bar> \<le> r" "\<bar>snd (latticePointAt L i j) - snd p\<bar> \<le> r"
      by linarith+
    then have inr: "inRectangle (fst p - r) (snd p - r) (2 * r) (2 * r) (latticePointAt L i j)"
      by (simp add: inRectangle_def abs_le_iff)
    from assms have inv: "transform2D Li (transform2D L (real_of_int i, real_of_int j))
                  = (real_of_int i, real_of_int j)"
      by (simp add: inverseOnLattice_def latticePointAt_def)
    have "insideRectangle e (transform2D L (real_of_int i, real_of_int j))"
      using inr by (simp add: ins latticePointAt_def)
    from newLatticePointEnumerator_complete_gen [OF inv this [unfolded e_def]]
    have "(i, j) \<in> set (remaining e)" by (simp add: e_def)
    moreover have "accepts e (i, j)" using inr by (simp add: acc)
    moreover have "(fst (latticePointOf e (i, j)) - fst p)\<^sup>2 +
                   (snd (latticePointOf e (i, j)) - snd p)\<^sup>2 \<le> r\<^sup>2"
      using d r by (simp add: euclideanDistance_le_iff lp)
    ultimately show "isZeroLoop p (r\<^sup>2) e False lp0"
      unfolding isZeroLoop_remaining by blast
  qed
  then show ?thesis by (simp add: e_def)
qed

lemma vertexDisqualifiedLoop_iff:
  assumes "\<forall>m \<in> set ms. inverseOnLattice (inverseLatticeBasis ! m) (latticeBasis ! m)"
  shows "vertexDisqualifiedLoop domainToPlane latticeBasis inverseLatticeBasis r (r\<^sup>2) v ms
         = (\<exists>m \<in> set ms. \<not> nearLatticePoint (latticeBasis ! m)
                                 (transformND (domainToPlane ! m) v) r)"
  using assms
proof (induction ms)
  case Nil
  show ?case by simp
next
  case (Cons m ms)
  from Cons.prems have inv: "inverseOnLattice (inverseLatticeBasis ! m) (latticeBasis ! m)"
    and rest: "\<forall>m \<in> set ms. inverseOnLattice (inverseLatticeBasis ! m) (latticeBasis ! m)"
    by simp_all
  show ?case
    by (simp add: Let_def isZeroLoop_near [OF inv] Cons.IH [OF rest])
qed

lemma vertexDisqualified_accepted:
  assumes "\<forall>m < length domainToPlane. inverseOnLattice (inverseLatticeBasis ! m) (latticeBasis ! m)"
  shows "vertexDisqualifiedLoop domainToPlane latticeBasis inverseLatticeBasis r (r\<^sup>2) v
           [0..<length domainToPlane]
         = (\<not> vertexAccepted domainToPlane latticeBasis r v)"
proof -
  have "\<forall>m \<in> set [0..<length domainToPlane].
          inverseOnLattice (inverseLatticeBasis ! m) (latticeBasis ! m)"
    using assms by simp
  from vertexDisqualifiedLoop_iff [OF this] show ?thesis
    by (auto simp: vertexAccepted_def)
qed

lemma tryFindGridCodeZero_loop_spec:
  assumes n: "n < 32"
      and inv: "\<forall>m < length domainToPlane.
                  inverseOnLattice (inverseLatticeBasis ! m) (latticeBasis ! m)"
  shows "k \<le> 2 ^ n \<Longrightarrow> length vb = n \<Longrightarrow>
         \<exists>res buf.
           tryFindGridCodeZero_loop domainToPlane latticeBasis inverseLatticeBasis n x0 dims
             r (r\<^sup>2) (word_of_nat k) vb = Some (res, buf) \<and>
           length buf = n \<and>
           (res \<longrightarrow> (\<exists>k'. k \<le> k' \<and> k' < 2 ^ n \<and> buf = vertex x0 dims n k' \<and>
                       vertexAccepted domainToPlane latticeBasis r (vertex x0 dims n k') \<and>
                       (\<forall>k''. k \<le> k'' \<and> k'' < k' \<longrightarrow>
                          \<not> vertexAccepted domainToPlane latticeBasis r (vertex x0 dims n k'')))) \<and>
           (\<not> res \<longrightarrow> (\<forall>k'. k \<le> k' \<and> k' < 2 ^ n \<longrightarrow>
                          \<not> vertexAccepted domainToPlane latticeBasis r (vertex x0 dims n k')))"
proof (induction "2 ^ n - k" arbitrary: k vb rule: less_induct)
  case less
  let ?A = "\<lambda>k. vertexAccepted domainToPlane latticeBasis r (vertex x0 dims n k)"
  let ?loop = "tryFindGridCodeZero_loop domainToPlane latticeBasis inverseLatticeBasis n x0 dims
                 r (r\<^sup>2)"
  show ?case
  proof (cases "k = 2 ^ n")
    case True
    have "?loop (word_of_nat k) vb = Some (False, vb)"
      unfolding True
      by (subst tryFindGridCodeZero_loop.simps) (simp add: vertices_getNext_done_pow [OF n])
    moreover have "\<forall>k'. k \<le> k' \<and> k' < 2 ^ n \<longrightarrow> \<not> ?A k'"
      using True by (metis not_less)
    ultimately show ?thesis using less.prems(2)
      by (intro exI [of _ False] exI [of _ vb] conjI impI) simp_all
  next
    case False
    with less.prems(1) have k: "k < 2 ^ n" by simp
    note step = vertices_getNext_next [OF n k less.prems(2), of x0 dims]
    note dq = vertexDisqualified_accepted [OF inv, of r "vertex x0 dims n k"]
    show ?thesis
    proof (cases "?A k")
      case True
      have "?loop (word_of_nat k) vb = Some (True, vertex x0 dims n k)"
        by (subst tryFindGridCodeZero_loop.simps) (simp add: step dq True)
        moreover have "\<forall>k''. k \<le> k'' \<and> k'' < k \<longrightarrow> \<not> ?A k''"
        by (metis not_less)
      ultimately show ?thesis using True k
        by (intro exI [of _ True] exI [of _ "vertex x0 dims n k"] conjI impI exI [of _ k]) simp_all
    next
      case rej: False
      have unf: "?loop (word_of_nat k) vb = ?loop (word_of_nat (Suc k)) (vertex x0 dims n k)"
        by (subst tryFindGridCodeZero_loop.simps) (simp add: step dq rej)
      have "2 ^ n - Suc k < 2 ^ n - k" using k by simp
      from less.hyps [OF this, of "vertex x0 dims n k"] k
      obtain res buf where ih:
        "?loop (word_of_nat (Suc k)) (vertex x0 dims n k) = Some (res, buf)"
        "length buf = n"
        "res \<longrightarrow> (\<exists>k'. Suc k \<le> k' \<and> k' < 2 ^ n \<and> buf = vertex x0 dims n k' \<and> ?A k' \<and>
                       (\<forall>k''. Suc k \<le> k'' \<and> k'' < k' \<longrightarrow> \<not> ?A k''))"
        "\<not> res \<longrightarrow> (\<forall>k'. Suc k \<le> k' \<and> k' < 2 ^ n \<longrightarrow> \<not> ?A k')"
        by auto
      have a: "res \<longrightarrow> (\<exists>k'. k \<le> k' \<and> k' < 2 ^ n \<and> buf = vertex x0 dims n k' \<and> ?A k' \<and>
                       (\<forall>k''. k \<le> k'' \<and> k'' < k' \<longrightarrow> \<not> ?A k''))"
      proof
        assume res
        with ih(3) obtain k' where k': "Suc k \<le> k'" "k' < 2 ^ n" "buf = vertex x0 dims n k'"
          "?A k'" "\<forall>k''. Suc k \<le> k'' \<and> k'' < k' \<longrightarrow> \<not> ?A k''" by auto
        have "\<forall>k''. k \<le> k'' \<and> k'' < k' \<longrightarrow> \<not> ?A k''"
        proof (intro allI impI)
          fix k'' assume "k \<le> k'' \<and> k'' < k'"
          then consider "k'' = k" | "Suc k \<le> k'' \<and> k'' < k'" by linarith
          then show "\<not> ?A k''" using rej k'(5) by cases auto
        qed
        with k' show "\<exists>k'. k \<le> k' \<and> k' < 2 ^ n \<and> buf = vertex x0 dims n k' \<and> ?A k' \<and>
                       (\<forall>k''. k \<le> k'' \<and> k'' < k' \<longrightarrow> \<not> ?A k'')"
          by (intro exI [of _ k']) auto
      qed
      have b: "\<not> res \<longrightarrow> (\<forall>k'. k \<le> k' \<and> k' < 2 ^ n \<longrightarrow> \<not> ?A k')"
      proof (intro impI allI)
        fix k' assume nr: "\<not> res" and "k \<le> k' \<and> k' < 2 ^ n"
        then consider "k' = k" | "Suc k \<le> k' \<and> k' < 2 ^ n" by linarith
        then show "\<not> ?A k'" using rej ih(4) nr by cases auto
      qed
      from unf ih(1) have "?loop (word_of_nat k) vb = Some (res, buf)" by simp
      with ih(2) a b show ?thesis by (intro exI [of _ res] exI [of _ buf] conjI)
    qed
  qed
qed

lemma tryFindGridCodeZero_characterisation:
  assumes "n < 32" "length vertexBuffer = n"
      and "\<forall>m < length domainToPlane.
             inverseOnLattice (inverseLatticeBasis ! m) (latticeBasis ! m)"
  shows "\<exists>res buf.
           tryFindGridCodeZero domainToPlane latticeBasis inverseLatticeBasis n x0 dims rho
             vertexBuffer = Some (res, buf) \<and>
           (res \<longleftrightarrow> (\<exists>k < 2 ^ n. vertexAccepted domainToPlane latticeBasis
                                    (rho / 2 + 0.000000001) (vertex x0 dims n k))) \<and>
           (res \<longrightarrow> (\<exists>k < 2 ^ n. buf = vertex x0 dims n k \<and>
                       vertexAccepted domainToPlane latticeBasis (rho / 2 + 0.000000001)
                         (vertex x0 dims n k) \<and>
                       (\<forall>k' < k. \<not> vertexAccepted domainToPlane latticeBasis
                                     (rho / 2 + 0.000000001) (vertex x0 dims n k'))))"
proof -
  define r where "r = rho / 2 + 0.000000001"
  from tryFindGridCodeZero_loop_spec [OF assms(1,3), of 0 vertexBuffer x0 dims r] assms(2)
  obtain res buf where l:
    "tryFindGridCodeZero_loop domainToPlane latticeBasis inverseLatticeBasis n x0 dims
       r (r\<^sup>2) (word_of_nat 0) vertexBuffer = Some (res, buf)"
    "res \<longrightarrow> (\<exists>k'. k' < 2 ^ n \<and> buf = vertex x0 dims n k' \<and>
                vertexAccepted domainToPlane latticeBasis r (vertex x0 dims n k') \<and>
                (\<forall>k''. k'' < k' \<longrightarrow>
                   \<not> vertexAccepted domainToPlane latticeBasis r (vertex x0 dims n k'')))"
    "\<not> res \<longrightarrow> (\<forall>k'. k' < 2 ^ n \<longrightarrow>
                   \<not> vertexAccepted domainToPlane latticeBasis r (vertex x0 dims n k'))"
    by auto
  have "tryFindGridCodeZero domainToPlane latticeBasis inverseLatticeBasis n x0 dims rho
             vertexBuffer = Some (res, buf)"
    using l(1) by (simp add: tryFindGridCodeZero_def Let_def r_def)
  moreover have "res \<longleftrightarrow> (\<exists>k < 2 ^ n. vertexAccepted domainToPlane latticeBasis r
                                    (vertex x0 dims n k))"
    using l(2,3) by blast
  moreover have "res \<longrightarrow> (\<exists>k < 2 ^ n. buf = vertex x0 dims n k \<and>
                       vertexAccepted domainToPlane latticeBasis r (vertex x0 dims n k) \<and>
                       (\<forall>k' < k. \<not> vertexAccepted domainToPlane latticeBasis r
                                     (vertex x0 dims n k')))"
    using l(2) by blast
  ultimately show ?thesis unfolding r_def
    by (intro exI [of _ res] exI [of _ buf] conjI)
qed

lemma tryFindGridCodeZero_True:
  assumes "n < 32" "length vertexBuffer = n"
      and "\<forall>m < length domainToPlane.
             inverseOnLattice (inverseLatticeBasis ! m) (latticeBasis ! m)"
      and k: "k < 2 ^ n"
      and acc: "vertexAccepted domainToPlane latticeBasis (rho / 2 + 0.000000001)
                  (vertex x0 dims n k)"
      and first: "\<forall>k' < k. \<not> vertexAccepted domainToPlane latticeBasis (rho / 2 + 0.000000001)
                               (vertex x0 dims n k')"
  shows "tryFindGridCodeZero domainToPlane latticeBasis inverseLatticeBasis n x0 dims rho
           vertexBuffer = Some (True, vertex x0 dims n k)"
proof -
  let ?A = "\<lambda>k. vertexAccepted domainToPlane latticeBasis (rho / 2 + 0.000000001)
                  (vertex x0 dims n k)"
  from tryFindGridCodeZero_characterisation [OF assms(1-3), of x0 dims rho]
  obtain res buf where c:
    "tryFindGridCodeZero domainToPlane latticeBasis inverseLatticeBasis n x0 dims rho
       vertexBuffer = Some (res, buf)"
    "res \<longleftrightarrow> (\<exists>k < 2 ^ n. ?A k)"
    "res \<longrightarrow> (\<exists>k < 2 ^ n. buf = vertex x0 dims n k \<and> ?A k \<and> (\<forall>k' < k. \<not> ?A k'))"
    by blast
  from c(2) k acc have res by blast
  with c(3) obtain k1 where k1: "k1 < 2 ^ n" "buf = vertex x0 dims n k1" "?A k1"
    "\<forall>k' < k1. \<not> ?A k'" by blast
  have "k1 = k"
  proof (rule ccontr)
    assume "k1 \<noteq> k"
    then consider "k1 < k" | "k < k1" by linarith
    then show False using first k1(3,4) acc by cases blast+
  qed
  with c(1) \<open>res\<close> k1(2) show ?thesis by simp
qed

lemma tryFindGridCodeZero_False:
  assumes "n < 32" "length vertexBuffer = n"
      and "\<forall>m < length domainToPlane.
             inverseOnLattice (inverseLatticeBasis ! m) (latticeBasis ! m)"
      and none: "\<forall>k < 2 ^ n. \<not> vertexAccepted domainToPlane latticeBasis (rho / 2 + 0.000000001)
                                  (vertex x0 dims n k)"
  shows "\<exists>buf. tryFindGridCodeZero domainToPlane latticeBasis inverseLatticeBasis n x0 dims rho
                 vertexBuffer = Some (False, buf) \<and> length buf = n"
proof -
  define r where "r = rho / 2 + 0.000000001"
  from tryFindGridCodeZero_loop_spec [OF assms(1,3), of 0 vertexBuffer x0 dims r] assms(2)
  obtain res buf where l:
    "tryFindGridCodeZero_loop domainToPlane latticeBasis inverseLatticeBasis n x0 dims
       r (r\<^sup>2) (word_of_nat 0) vertexBuffer = Some (res, buf)"
    "length buf = n"
    "res \<longrightarrow> (\<exists>k'. k' < 2 ^ n \<and> buf = vertex x0 dims n k' \<and>
                vertexAccepted domainToPlane latticeBasis r (vertex x0 dims n k'))"
    by auto
  from l(3) none have "\<not> res" unfolding r_def by blast
  with l(1,2) show ?thesis
    by (simp add: tryFindGridCodeZero_def Let_def r_def)
qed

lemma det2_unitLattice: "det2 unitLattice = 1"
  by (simp add: det2_def unitLattice_def)

lemma invert2DMatrix_latticePointAt:
  "det2 L \<noteq> 0 \<Longrightarrow> inverseOnLattice (invert2DMatrix L) L"
  by (simp add: inverseOnLattice_def latticePointAt_def invert2DMatrix_left)

lemma latticePointAt_unitLattice: "latticePointAt unitLattice i j = (real_of_int i, real_of_int j)"
  by (simp add: latticePointAt_def transform2D_def unitLattice_def)

lemma transformND_lineToPlane: "transformND lineToPlane [x] = (x, 0)"
  by (simp add: transformND_def lineToPlane_def)

lemma vertex_1:
  "vertex [a] [d] 1 0 = [a]" "vertex [a] [d] 1 1 = [a + d]"
  "vertex [a] [d] (Suc 0) 0 = [a]" "vertex [a] [d] (Suc 0) (Suc 0) = [a + d]"
  by (simp_all add: vertex_def bit_0)

lemma half_integer_distance:
  "1 / 2 \<le> \<bar>1 / 2 - real_of_int i\<bar>"
proof (cases "i \<le> 0")
  case True
  then have "real_of_int i \<le> 0" by simp
  then show ?thesis by linarith
next
  case False
  then have "1 \<le> i" by simp
  then have "1 \<le> real_of_int i" by linarith
  then show ?thesis by linarith
qed

lemma not_near_half:
  assumes "r < 1 / 2"
  shows "\<not> nearLatticePoint unitLattice (1 / 2, 0) r"
proof
  assume "nearLatticePoint unitLattice (1 / 2, 0) r"
  then obtain i j where d: "euclideanDistance (1 / 2, 0) (real_of_int i, real_of_int j) \<le> r"
    by (auto simp: nearLatticePoint_def latticePointAt_unitLattice)
  from euclideanDistance_coord(1) [of "(1 / 2, 0)" "(real_of_int i, real_of_int j)"] d
  have "\<bar>1 / 2 - real_of_int i\<bar> \<le> r" by simp
  with half_integer_distance [of i] assms show False by linarith
qed

lemma near_lattice_point:
  assumes "0 \<le> r"
  shows "nearLatticePoint unitLattice (real_of_int i, real_of_int j) r"
  unfolding nearLatticePoint_def
  using assms
  by (intro exI [of _ i] exI [of _ j]) (simp add: latticePointAt_unitLattice euclideanDistance_def)



lemma example_accepted_0:
  "\<not> vertexAccepted [lineToPlane] [unitLattice] ((1 / 2) / 2 + 0.000000001) (vertex [1 / 2] [1 / 2] 1 0)"
  using not_near_half [of "(1 / 2) / 2 + 0.000000001"]
  by (simp add: vertexAccepted_def vertex_1 transformND_lineToPlane)

lemma example_accepted_1:
  "vertexAccepted [lineToPlane] [unitLattice] ((1 / 2) / 2 + 0.000000001) (vertex [1 / 2] [1 / 2] 1 1)"
  using near_lattice_point [of "(1 / 2) / 2 + 0.000000001" 1 0]
  by (simp add: vertexAccepted_def vertex_1 transformND_lineToPlane)


subsection \<open>The disqualification probe\<close>

lemma boundingBoxLoop_spec:
  assumes n: "n < 32"
  shows "k \<le> 2 ^ n \<Longrightarrow> length vb = n \<Longrightarrow>
         \<exists>buf. boundingBoxLoop M n x0 dims (word_of_nat k) vb bb
                 = Some (fold (\<lambda>k bb. boundingBoxStep M (vertex x0 dims n k) bb) [k..<2 ^ n] bb, buf)
               \<and> length buf = n"
proof (induction "2 ^ n - k" arbitrary: k vb bb rule: less_induct)
  case less
  show ?case
  proof (cases "k = 2 ^ n")
    case True
    have "boundingBoxLoop M n x0 dims (word_of_nat k) vb bb = Some (bb, vb)"
      unfolding True
      by (subst boundingBoxLoop.simps) (simp add: vertices_getNext_done_pow [OF n])
    with True less.prems(2) show ?thesis by simp
  next
    case False
    with less.prems(1) have k: "k < 2 ^ n" by simp
    note step = vertices_getNext_next [OF n k less.prems(2), of x0 dims]
    have unf: "boundingBoxLoop M n x0 dims (word_of_nat k) vb bb
             = boundingBoxLoop M n x0 dims (word_of_nat (Suc k)) (vertex x0 dims n k)
                 (boundingBoxStep M (vertex x0 dims n k) bb)"
      by (subst boundingBoxLoop.simps)
         (simp add: step boundingBoxStep_def Let_def split: prod.splits)
    have "2 ^ n - Suc k < 2 ^ n - k" using k by simp
    from less.hyps [OF this, of "vertex x0 dims n k" "boundingBoxStep M (vertex x0 dims n k) bb"] k
    obtain buf where ih:
      "boundingBoxLoop M n x0 dims (word_of_nat (Suc k)) (vertex x0 dims n k)
         (boundingBoxStep M (vertex x0 dims n k) bb)
       = Some (fold (\<lambda>k bb. boundingBoxStep M (vertex x0 dims n k) bb) [Suc k..<2 ^ n]
                 (boundingBoxStep M (vertex x0 dims n k) bb), buf)"
      "length buf = n"
      by auto
    have "[k..<2 ^ n] = k # [Suc k..<2 ^ n]" using k by (rule upt_conv_Cons)
    with unf ih show ?thesis by simp
  qed
qed



lemma collisionLoop_new:
  assumes "inverseOnLattice Li L"
  shows "collisionLoop xmin xmax ymin ymax rs (newLatticePointEnumerator L Li x y w h) False lp0
         = (\<exists>i j. inRectangle x y w h (latticePointAt L i j) \<and>
                  latticeCollision xmin xmax ymin ymax rs (latticePointAt L i j))"
proof -
  define e where "e = newLatticePointEnumerator L Li x y w h"
  have lp: "latticePointOf e ij = latticePointAt L (fst ij) (snd ij)" for ij
    by (simp add: latticePointOf_def latticePointAt_def e_def newLatticePointEnumerator_static)
  have ins: "insideRectangle e q = inRectangle x y w h q" for q
    by (auto simp: insideRectangle_def inRectangle_def e_def newLatticePointEnumerator_static)
  have acc: "accepts e ij = inRectangle x y w h (latticePointAt L (fst ij) (snd ij))" for ij
    by (simp add: accepts_def lp ins)
  have "collisionLoop xmin xmax ymin ymax rs e False lp0
         = (\<exists>i j. inRectangle x y w h (latticePointAt L i j) \<and>
                  latticeCollision xmin xmax ymin ymax rs (latticePointAt L i j))"
  proof
    assume "collisionLoop xmin xmax ymin ymax rs e False lp0"
    then obtain ij where "accepts e ij"
      "latticeCollision xmin xmax ymin ymax rs (latticePointOf e ij)"
      by (auto simp: collisionLoop_remaining)
    then show "\<exists>i j. inRectangle x y w h (latticePointAt L i j) \<and>
                  latticeCollision xmin xmax ymin ymax rs (latticePointAt L i j)"
      unfolding acc lp by blast
  next
    assume "\<exists>i j. inRectangle x y w h (latticePointAt L i j) \<and>
                  latticeCollision xmin xmax ymin ymax rs (latticePointAt L i j)"
    then obtain i j where ij: "inRectangle x y w h (latticePointAt L i j)"
      "latticeCollision xmin xmax ymin ymax rs (latticePointAt L i j)" by blast
    from assms have inv: "transform2D Li (transform2D L (real_of_int i, real_of_int j))
                  = (real_of_int i, real_of_int j)"
      by (simp add: inverseOnLattice_def latticePointAt_def)
    have "insideRectangle e (transform2D L (real_of_int i, real_of_int j))"
      using ij(1) by (simp add: ins latticePointAt_def)
    from newLatticePointEnumerator_complete_gen [OF inv this [unfolded e_def]]
    have "(i, j) \<in> set (remaining e)" by (simp add: e_def)
    moreover have "accepts e (i, j)" using ij(1) by (simp add: acc)
    moreover have "latticeCollision xmin xmax ymin ymax rs (latticePointOf e (i, j))"
      using ij(2) by (simp add: lp)
    ultimately show "collisionLoop xmin xmax ymin ymax rs e False lp0"
      unfolding collisionLoop_remaining by blast
  qed
  then show ?thesis by (simp add: e_def)
qed

lemma tryProveGridCodeZeroImpossible_loop_spec:
  assumes n: "n < 32"
  shows "length vb = n \<Longrightarrow>
         \<forall>m \<in> set ms. inverseOnLattice (inverseLatticeBasis ! m) (latticeBasis ! m) \<Longrightarrow>
         \<exists>res buf.
           tryProveGridCodeZeroImpossible_loop domainToPlane latticeBasis inverseLatticeBasis n
             x0 dims rho ms vb = Some (res, buf) \<and>
           length buf = n \<and>
           (res \<longleftrightarrow> (\<exists>m \<in> set ms. \<not> moduleCollision (domainToPlane ! m) (latticeBasis ! m)
                                        n x0 dims (rho / 2)))"
proof (induction ms arbitrary: vb)
  case Nil
  then show ?case by (intro exI [of _ False] exI [of _ vb]) simp
next
  case (Cons m ms)
  from Cons.prems(2) have inv: "inverseOnLattice (inverseLatticeBasis ! m) (latticeBasis ! m)"
    and rest: "\<forall>m \<in> set ms. inverseOnLattice (inverseLatticeBasis ! m) (latticeBasis ! m)"
    by simp_all
  obtain xmin xmax ymin ymax where bb:
    "imageBoundingBox (domainToPlane ! m) x0 dims n = (xmin, xmax, ymin, ymax)"
    by (cases "imageBoundingBox (domainToPlane ! m) x0 dims n") auto
  from boundingBoxLoop_spec [OF n, of 0 vb "domainToPlane ! m" x0 dims
         "(numeric_limits_max, numeric_limits_lowest, numeric_limits_max, numeric_limits_lowest)"]
       Cons.prems(1) bb
  obtain buf1 where l: "boundingBoxLoop (domainToPlane ! m) n x0 dims 0 vb
        (numeric_limits_max, numeric_limits_lowest, numeric_limits_max, numeric_limits_lowest)
       = Some ((xmin, xmax, ymin, ymax), buf1)" "length buf1 = n"
    by (auto simp: imageBoundingBox_def)
  define coll where "coll = moduleCollision (domainToPlane ! m) (latticeBasis ! m) n x0 dims (rho / 2)"
  have c: "collisionLoop xmin xmax ymin ymax ((rho / 2)\<^sup>2)
             (newLatticePointEnumerator (latticeBasis ! m) (inverseLatticeBasis ! m)
                (xmin - rho / 2) (ymin - rho / 2) ((xmax - xmin) + 2 * (rho / 2))
                ((ymax - ymin) + 2 * (rho / 2))) False (0, 0) = coll"
    unfolding collisionLoop_new [OF inv] coll_def moduleCollision_def bb by simp
  show ?case
  proof (cases coll)
    case False
    have "tryProveGridCodeZeroImpossible_loop domainToPlane latticeBasis inverseLatticeBasis n
             x0 dims rho (m # ms) vb = Some (True, buf1)"
      using l(1) c False by (simp add: Let_def)
    with l(2) False show ?thesis
      by (intro exI [of _ True] exI [of _ buf1]) (simp add: coll_def)
  next
    case True
    have unf: "tryProveGridCodeZeroImpossible_loop domainToPlane latticeBasis inverseLatticeBasis n
             x0 dims rho (m # ms) vb
          = tryProveGridCodeZeroImpossible_loop domainToPlane latticeBasis inverseLatticeBasis n
             x0 dims rho ms buf1"
      using l(1) c True by (simp add: Let_def)
    from Cons.IH [OF l(2) rest] obtain res buf where ih:
      "tryProveGridCodeZeroImpossible_loop domainToPlane latticeBasis inverseLatticeBasis n
             x0 dims rho ms buf1 = Some (res, buf)" "length buf = n"
      "res \<longleftrightarrow> (\<exists>m \<in> set ms. \<not> moduleCollision (domainToPlane ! m) (latticeBasis ! m)
                                        n x0 dims (rho / 2))"
      by blast
    from unf ih True show ?thesis
      by (intro exI [of _ res] exI [of _ buf]) (simp add: coll_def)
  qed
qed

lemma tryProveGridCodeZeroImpossible_characterisation:
  assumes "n < 32" "length vertexBuffer = n"
      and "\<forall>m < length domainToPlane.
             inverseOnLattice (inverseLatticeBasis ! m) (latticeBasis ! m)"
  shows "\<exists>res buf.
           tryProveGridCodeZeroImpossible domainToPlane latticeBasis inverseLatticeBasis n
             x0 dims rho vertexBuffer = Some (res, buf) \<and>
           length buf = n \<and>
           (res \<longleftrightarrow> (\<exists>m < length domainToPlane.
                        \<not> moduleCollision (domainToPlane ! m) (latticeBasis ! m) n x0 dims (rho / 2)))"
proof -
  have "\<forall>m \<in> set [0..<length domainToPlane].
          inverseOnLattice (inverseLatticeBasis ! m) (latticeBasis ! m)"
    using assms(3) by simp
  from tryProveGridCodeZeroImpossible_loop_spec [OF assms(1,2) this, of domainToPlane x0 dims rho]
  obtain res buf where l:
    "tryProveGridCodeZeroImpossible_loop domainToPlane latticeBasis inverseLatticeBasis n
       x0 dims rho [0..<length domainToPlane] vertexBuffer = Some (res, buf)" "length buf = n"
    "res \<longleftrightarrow> (\<exists>m \<in> set [0..<length domainToPlane].
               \<not> moduleCollision (domainToPlane ! m) (latticeBasis ! m) n x0 dims (rho / 2))"
    by blast
  from l(3) have "res \<longleftrightarrow> (\<exists>m < length domainToPlane.
               \<not> moduleCollision (domainToPlane ! m) (latticeBasis ! m) n x0 dims (rho / 2))"
    by auto
  with l(1,2) show ?thesis
    by (intro exI [of _ res] exI [of _ buf]) (simp add: tryProveGridCodeZeroImpossible_def)
qed

subsection \<open>The image of a hyperrectangle lies in the bounding box of its vertices\<close>










lemma tryProveGridCodeZeroImpossible_False:
  assumes "n < 32" "length vertexBuffer = n"
      and "\<forall>m < length domainToPlane.
             inverseOnLattice (inverseLatticeBasis ! m) (latticeBasis ! m)"
      and "\<forall>m < length domainToPlane.
             moduleCollision (domainToPlane ! m) (latticeBasis ! m) n x0 dims (rho / 2)"
  shows "\<exists>buf. tryProveGridCodeZeroImpossible domainToPlane latticeBasis
           inverseLatticeBasis n x0 dims rho vertexBuffer = Some (False, buf) \<and> length buf = n"
  using tryProveGridCodeZeroImpossible_characterisation [OF assms(1-3), of x0 dims rho] assms(4)
  by auto



lemma numeric_limits_max_pos: "0 < numeric_limits_max" "numeric_limits_lowest < 0"
  by (simp_all add: numeric_limits_max_def numeric_limits_lowest_def)




lemma numeric_limits_max_gt_1: "1 < numeric_limits_max"
  by (simp add: numeric_limits_max_def)

lemma upt_0_2: "[0..<2] = [0, Suc 0]"
  by (simp add: numeral_2_eq_2)













section \<open>Properties of the recursive searcher\<close>

lemma half_integer_distance_shift:
  "1 / 2 \<le> \<bar>real_of_int k + 1 / 2 - real_of_int i\<bar>"
proof (cases "i \<le> k")
  case True
  then have "real_of_int i \<le> real_of_int k" by simp
  then show ?thesis by linarith
next
  case False
  then have "k + 1 \<le> i" by simp
  then have "real_of_int k + 1 \<le> real_of_int i" by linarith
  then show ?thesis by linarith
qed

lemma not_near_half_integer:
  assumes "r < 1 / 2"
  shows "\<not> nearLatticePoint unitLattice (real_of_int k + 1 / 2, 0) r"
proof
  assume "nearLatticePoint unitLattice (real_of_int k + 1 / 2, 0) r"
  then obtain i j where
    d: "euclideanDistance (real_of_int k + 1 / 2, 0) (real_of_int i, real_of_int j) \<le> r"
    by (auto simp: nearLatticePoint_def latticePointAt_unitLattice)
  from euclideanDistance_coord(1) [of "(real_of_int k + 1 / 2, 0)" "(real_of_int i, real_of_int j)"] d
  have "\<bar>real_of_int k + 1 / 2 - real_of_int i\<bar> \<le> r" by simp
  with half_integer_distance_shift [of k i] assms show False by linarith
qed

lemma line_inverse:
  "\<forall>m < length [lineToPlane].
     inverseOnLattice ([invert2DMatrix unitLattice] ! m) ([unitLattice] ! m)"
  by (simp add: invert2DMatrix_latticePointAt det2_unitLattice)

lemma line_root_rejected:
  "\<forall>k < 2 ^ 1. \<not> vertexAccepted [lineToPlane] [unitLattice] ((1 / 2) / 2 + 0.000000001)
                    (vertex [1 / 2] [1] 1 k)"
proof (intro allI impI)
  fix k :: nat assume "k < 2 ^ 1"
  then have "k = 0 \<or> k = 1" by auto
  then show "\<not> vertexAccepted [lineToPlane] [unitLattice] ((1 / 2) / 2 + 0.000000001)
                 (vertex [1 / 2] [1] 1 k)"
    using not_near_half_integer [of "(1 / 2) / 2 + 0.000000001" 0]
          not_near_half_integer [of "(1 / 2) / 2 + 0.000000001" 1]
    by (auto simp: vertexAccepted_def vertex_1 transformND_lineToPlane)
qed

lemma imageBoundingBox_line:
  "imageBoundingBox lineToPlane [1 / 2] [1] (Suc 0) = (1 / 2, 3 / 2, 0, 0)"
  "imageBoundingBox lineToPlane [1 / 2] [1] 1 = (1 / 2, 3 / 2, 0, 0)"
  using numeric_limits_max_gt_1
  by (simp_all add: imageBoundingBox_def boundingBoxStep_def vertex_1 transformND_lineToPlane
        numeric_limits_lowest_def upt_0_2)

lemma line_root_collision:
  "\<forall>m < length [lineToPlane].
     moduleCollision ([lineToPlane] ! m) ([unitLattice] ! m) 1 [1 / 2] [1] ((1 / 2) / 2)"
proof -
  have "inRectangle (1 / 2 - 1 / 4) (0 - 1 / 4) (3 / 2 - 1 / 2 + 2 * (1 / 4)) (0 - 0 + 2 * (1 / 4))
          (latticePointAt unitLattice 1 0)"
    by (simp add: inRectangle_def latticePointAt_unitLattice)
  moreover have "latticeCollision (1 / 2) (3 / 2) 0 0 ((1 / 4)\<^sup>2) (latticePointAt unitLattice 1 0)"
    by (simp add: latticeCollision_def latticePointAt_unitLattice Let_def)
  ultimately have "moduleCollision lineToPlane unitLattice 1 [1 / 2] [1] (1 / 4)"
    unfolding moduleCollision_def imageBoundingBox_line by auto
  then show ?thesis by simp
qed

lemma max_element_single: "max_element [d] 1 = 0" "max_element [d] (Suc 0) = 0"
  by (simp_all add: max_element_def)

lemma line_inner:
  assumes "length vb = 1"
  shows "findGridCodeZeroHelper [lineToPlane] [unitLattice] [invert2DMatrix unitLattice] 1
           [1 / 2] [1 / 2] (1 / 2) vb (\<lambda>reads. True) 1
         = Some (True, [1 / 2], [1 / 2], [1], 2)"
proof -
  have k: "(1::nat) < 2 ^ 1" by simp
  have first: "\<forall>k' < 1. \<not> vertexAccepted [lineToPlane] [unitLattice] ((1 / 2) / 2 + 0.000000001)
                              (vertex [1 / 2] [1 / 2] 1 k')"
    using example_accepted_0 by simp
  have h1: "(1::nat) < 32" by simp
  from tryFindGridCodeZero_True [OF h1 assms line_inverse k example_accepted_1 first]
  have "tryFindGridCodeZero [lineToPlane] [unitLattice] [invert2DMatrix unitLattice] 1
          [1 / 2] [1 / 2] (1 / 2) vb = Some (True, [1])"
    by (simp add: vertex_1)
  then show ?thesis
    by (subst findGridCodeZeroHelper.simps) (simp add: numeral_2_eq_2)
qed

lemma line_search:
  "findGridCodeZeroHelper [lineToPlane] [unitLattice] [invert2DMatrix unitLattice] 1
     [1 / 2] [1] (1 / 2) [0] (\<lambda>reads. True) 0
   = Some (True, [1 / 2], [1], [1], 2)"
proof -
  have h1: "(1::nat) < 32" by simp
  have h2: "length [0::real] = 1" by simp
  from tryFindGridCodeZero_False [OF h1 h2 line_inverse line_root_rejected]
  obtain buf1 where f: "tryFindGridCodeZero [lineToPlane] [unitLattice]
      [invert2DMatrix unitLattice] 1 [1 / 2] [1] (1 / 2) [0] = Some (False, buf1)"
    "length buf1 = 1" by blast
  from tryProveGridCodeZeroImpossible_False [OF h1 f(2) line_inverse line_root_collision]
  obtain buf2 where p: "tryProveGridCodeZeroImpossible [lineToPlane] [unitLattice]
      [invert2DMatrix unitLattice] 1 [1 / 2] [1] (1 / 2) buf1 = Some (False, buf2)"
    "length buf2 = 1" by blast
  show ?thesis
    by (subst findGridCodeZeroHelper.simps)
       (simp add: f(1) [simplified] p(1) [simplified] max_element_single
          line_inner [OF p(2), simplified])
qed

lemma line_findGridCodeZero:
  "findGridCodeZero [lineToPlane] [unitLattice] [1 / 2] [1] (1 / 2) None
     = Some (True, [1 / 2], [1], [1])"
  using line_search by (simp add: findGridCodeZero_def Let_def lineToPlane_def)

lemma findGridCodeZeroHelper_frame_aux:
  assumes "findGridCodeZeroHelper domainToPlane latticeBasis inverseLatticeBasis n x0 dims
             rho vertexBuffer shouldContinue reads = Some y"
  shows "fst (snd y) = x0 \<and> fst (snd (snd y)) = dims"
proof (rule findGridCodeZeroHelper.raw_induct
         [where P = "\<lambda>domainToPlane latticeBasis inverseLatticeBasis n x0 dims
                       rho vertexBuffer shouldContinue reads y.
                       fst (snd y) = x0 \<and> fst (snd (snd y)) = dims", OF _ assms],
       goal_cases)
  case (1 helper domainToPlane latticeBasis inverseLatticeBasis n x0 dims rho
          vertexBuffer shouldContinue reads y)
  note IH = "1"(1) and body = "1"(2)
  show ?case
  proof (cases "shouldContinue reads")
    case False
    with body show ?thesis by auto
  next
    case sc: True
    with body obtain found vb1 where
      tf: "tryFindGridCodeZero domainToPlane latticeBasis inverseLatticeBasis n x0 dims
             rho vertexBuffer = Some (found, vb1)"
      by (auto split: Option.bind_splits)
    show ?thesis
    proof (cases found)
      case True
      with body sc tf show ?thesis by auto
    next
      case nf: False
      with body sc tf obtain impossible vb2 where
        tp: "tryProveGridCodeZeroImpossible domainToPlane latticeBasis inverseLatticeBasis
               n x0 dims rho vb1 = Some (impossible, vb2)"
        by (auto split: Option.bind_splits)
      show ?thesis
      proof (cases impossible)
        case True
        with body sc tf nf tp show ?thesis by auto
      next
        case ni: False
        define w where "w = max_element dims n"
        from body sc tf nf tp ni have inr: "w < length dims \<and> w < length x0"
          by (auto simp: w_def Let_def split: if_splits)
        from body sc tf nf tp ni inr obtain found1 x0a dimsa vb3 reads1 where
          r1: "helper domainToPlane latticeBasis inverseLatticeBasis n x0
                 (dims[w := dims ! w / 2]) rho vb2 shouldContinue (reads + 1)
               = Some (found1, x0a, dimsa, vb3, reads1)"
          by (auto simp: w_def Let_def split: Option.bind_splits)
        from IH [OF r1] have a: "x0a = x0" "dimsa = dims[w := dims ! w / 2]" by simp_all
        show ?thesis
        proof (cases found1)
          case True
          with body sc tf nf tp ni inr r1 a show ?thesis
            by (auto simp: w_def [symmetric] Let_def)
        next
          case nf1: False
          with body sc tf nf tp ni inr r1 a obtain found2 x0c dimsc vb4 reads2 where
            r2: "helper domainToPlane latticeBasis inverseLatticeBasis n
                   (x0[w := x0 ! w + dims[w := dims ! w / 2] ! w])
                   (dims[w := dims ! w / 2]) rho vb3 shouldContinue reads1
                 = Some (found2, x0c, dimsc, vb4, reads2)"
            by (auto simp: w_def [symmetric] Let_def split: Option.bind_splits)
          from IH [OF r2] have b: "x0c = x0[w := x0 ! w + dims[w := dims ! w / 2] ! w]"
            "dimsc = dims[w := dims ! w / 2]" by simp_all
          from body sc tf nf tp ni inr r1 a nf1 r2 b show ?thesis
            by (auto simp: w_def [symmetric] Let_def)
        qed
      qed
    qed
  qed
qed

lemma findGridCodeZero_frame_aux:
  assumes "findGridCodeZero domainToPlane latticeBasis x0 dims rho pointBuffer
             = Some (res, x0', dims', point)"
  shows "x0' = x0 \<and> dims' = dims"
proof -
  from assms obtain buffer reads where
    "findGridCodeZeroHelper domainToPlane latticeBasis (map invert2DMatrix latticeBasis)
       (length dims) x0 dims rho buffer (\<lambda>reads. True) 0 = Some (res, x0', dims', point, reads)"
    by (auto simp: findGridCodeZero_def Let_def split: if_splits Option.bind_splits)
  from findGridCodeZeroHelper_frame_aux [OF this] show ?thesis by simp
qed

text \<open>
  Claim C10. Whenever \<open>findGridCodeZeroHelper\<close> returns, by success, failure or
  cancellation, \<open>x0\<close> and \<open>dims\<close> hold the values they had on entry. The copies
  on which \<open>findGridCodeZero\<close> works are equal to the caller's vectors when it returns;
  the caller's vectors are read-only arguments.
\<close>

theorem findGridCodeZeroHelper_frame:
  "(findGridCodeZeroHelper domainToPlane latticeBasis inverseLatticeBasis n x0 dims rho
      vertexBuffer shouldContinue reads = Some (res, x0', dims', vertexBuffer', reads')
    \<longrightarrow> x0' = x0 \<and> dims' = dims) \<and>
   (findGridCodeZero domainToPlane latticeBasis x0 dims rho pointBuffer
      = Some (found, x0Copy, dimsCopy, point)
    \<longrightarrow> x0Copy = x0 \<and> dimsCopy = dims)"
  using findGridCodeZeroHelper_frame_aux
          [of domainToPlane latticeBasis inverseLatticeBasis n x0 dims rho vertexBuffer
              shouldContinue reads "(res, x0', dims', vertexBuffer', reads')"]
        findGridCodeZero_frame_aux
          [of domainToPlane latticeBasis x0 dims rho pointBuffer found x0Copy dimsCopy
              point]
  by simp

theorem findGridCodeZeroHelper_frame_witness:
  "findGridCodeZeroHelper [lineToPlane] [unitLattice] [invert2DMatrix unitLattice] 1
     [1 / 2] [1] (1 / 2) [0] (\<lambda>reads. True) 0
     = Some (True, [1 / 2], [1], [1], 2) \<and>
   findGridCodeZero [lineToPlane] [unitLattice] [1 / 2] [1] (1 / 2) None
     = Some (True, [1 / 2], [1], [1])"
  using findGridCodeZeroHelper_frame
          [of "[lineToPlane]" "[unitLattice]" "[invert2DMatrix unitLattice]" 1 "[1 / 2]" "[1]"
              "1 / 2" "[0]" "\<lambda>reads. True" 0 True "[1 / 2]" "[1]" "[1]" 2 None True
              "[1 / 2]" "[1]" "[1]"]
        line_search line_findGridCodeZero
  by simp

subsection \<open>Termination and total correctness of the search\<close>



































section \<open>Properties of the scheduler\<close>

subsection \<open>The loops as maps\<close>

lemma fillAllButFinal_aux:
  fixes p :: "real list"
  shows "fold (\<lambda>iDim (x0, dims). (x0[iDim := - (p ! iDim)], dims[iDim := 2 * p ! iDim])) [0..<k] (x, d)
   = (map (\<lambda>i. if i < k then - (p ! i) else x ! i) [0..<length x],
      map (\<lambda>i. if i < k then 2 * p ! i else d ! i) [0..<length d])"
proof (induction k)
  case 0
  show ?case by (simp add: map_nth)
next
  case (Suc k)
  show ?case
    using upd_map_upt [of k "\<lambda>i. - (p ! i)" "\<lambda>i. x ! i" "length x"]
          upd_map_upt [of k "\<lambda>i. 2 * p ! i" "\<lambda>i. d ! i" "length d"]
    by (simp only: upt_Suc_append [OF le0] fold_append comp_apply Suc fold_simps prod.case)
qed

lemma fillAllButFinal_eq:
  "fillAllButFinal n p (x, d) =
     (map (\<lambda>i. if i < n - 1 then - (p ! i) else x ! i) [0..<length x],
      map (\<lambda>i. if i < n - 1 then 2 * p ! i else d ! i) [0..<length d])"
  unfolding fillAllButFinal_def by (rule fillAllButFinal_aux)

lemma stopOthers_aux:
  "k \<le> length flags \<Longrightarrow>
   fold (\<lambda>iOtherThread fl.
             if iOtherThread \<noteq> iThread \<and> fl ! iOtherThread \<and>
                double_ge (radii ! iOtherThread) best
             then fl[iOtherThread := False] else fl) [0..<k] flags
   = map (\<lambda>j. if j < k then flags ! j \<and> \<not> (j \<noteq> iThread \<and> double_ge (radii ! j) best)
                else flags ! j) [0..<length flags]"
proof (induction k)
  case 0
  show ?case by (simp add: map_nth)
next
  case (Suc k)
  define f where "f = (\<lambda>j. flags ! j \<and> \<not> (j \<noteq> iThread \<and> double_ge (radii ! j) best))"
  define m where "m = map (\<lambda>j. if j < k then f j else flags ! j) [0..<length flags]"
  from Suc.prems have k: "k < length flags" by simp
  have mk: "m ! k = flags ! k" using k by (simp add: m_def)
  have upd: "m[k := f k] = map (\<lambda>j. if j < Suc k then f j else flags ! j) [0..<length flags]"
    unfolding m_def by (rule upd_map_upt)
  have same: "m[k := flags ! k] = m"
    using mk list_update_id [of m k] by simp
  have step: "(if k \<noteq> iThread \<and> m ! k \<and> double_ge (radii ! k) best then m[k := False] else m)
            = m[k := f k]"
  proof (cases "k \<noteq> iThread \<and> flags ! k \<and> double_ge (radii ! k) best")
    case True
    then have "f k = False" by (simp add: f_def)
    with True mk show ?thesis by simp
  next
    case False
    then have "f k = flags ! k" by (auto simp: f_def)
    with False mk same show ?thesis by auto
  qed
  have ih: "fold (\<lambda>iOtherThread fl.
             if iOtherThread \<noteq> iThread \<and> fl ! iOtherThread \<and>
                double_ge (radii ! iOtherThread) best
             then fl[iOtherThread := False] else fl) [0..<k] flags = m"
    unfolding m_def f_def using Suc.IH k by simp
  show ?case
    unfolding upt_Suc_append [OF le0] fold_append comp_apply fold_simps ih step upd
    unfolding f_def ..
qed

lemma stopOthers_eq:
  "length radii \<le> length flags \<Longrightarrow>
   stopOthers iThread radii best flags
   = map (\<lambda>j. if j < length radii
               then flags ! j \<and> \<not> (j \<noteq> iThread \<and> double_ge (radii ! j) best)
               else flags ! j) [0..<length flags]"
  unfolding stopOthers_def by (rule stopOthers_aux)

subsection \<open>The example state\<close>

lemma exampleState_fields:
  "numDims exampleState = 2" "baselineRadius exampleState = 1/2"
  "expansionRadiusGoal exampleState = 1" "expansionProgress exampleState = [1/2, 1/2]"
  "expandingDim exampleState = 0" "positiveExpand exampleState"
  "threadBaselineRadius exampleState = [Finite numeric_limits_max, Finite numeric_limits_max]"
  "threadQueryX0 exampleState = [[0, 0], [0, 0]]"
  "threadQueryDims exampleState = [[0, 0], [0, 0]]"
  "threadShouldContinue exampleState = [True, True]"
  "foundPointBaselineRadius exampleState = Finite numeric_limits_max"
  by (simp_all add: exampleState_def initialState_def Let_def numeral_2_eq_2)

lemma upt_0_1: "[0..<Suc 0] = [0]" by simp

lemma claim_example:
  "claimNextTask 0 exampleState =
     Some exampleClaimed"
  by (simp add: claimNextTask_def exampleState_fields exampleClaimed_def Let_def
        fillAllButFinal_def)

lemma numeric_limits_max_gt: "1 < numeric_limits_max"
  by (simp add: numeric_limits_max_def)

lemma exampleClaimed_fields:
  "baselineRadius exampleClaimed = 1/2"
  "threadBaselineRadius exampleClaimed = [Finite (1/2), Finite numeric_limits_max]"
  "threadShouldContinue exampleClaimed = [True, True]"
  "foundPointBaselineRadius exampleClaimed = Finite numeric_limits_max"
  by (simp_all add: exampleClaimed_def exampleState_fields)

lemma exampleRecorded_fields:
  "baselineRadius exampleRecorded = 1/2"
  "foundPointBaselineRadius exampleRecorded = Finite (1/2)"
  "pointWithGridCodeZero exampleRecorded = [7/10, 1/5]"
  "threadShouldContinue exampleRecorded = [True, False]"
  "\<not> continueExpansion exampleRecorded"
  by (simp_all add: exampleRecorded_def exampleClaimed_fields)

lemma record_example:
  "recordResult 0 exampleClaimed [7/10, 1/5] = Some exampleRecorded"
  using numeric_limits_max_gt
  by (simp add: recordResult_def exampleClaimed_fields exampleRecorded_def Let_def
        stopOthers_def numeral_2_eq_2)

subsection \<open>Slab assignment\<close>

text \<open>
  Claim C6, as the code has it. A successful call of \<open>claimNextTask\<close> for worker
  \<open>iThread\<close> leaves in the worker's query, for every axis \<open>i < numDims\<close>: on the
  expanding axis \<open>d\<close> the width \<open>G - B\<close> and the origin \<open>B\<close> (positive slab)
  or \<open>-G\<close> (negative slab); on any other axis before the final one the width
  \<open>2 * expansionProgress[i]\<close> and the origin \<open>-expansionProgress[i]\<close>; on the final
  axis the width \<open>expansionProgress[N-1]\<close> and the origin \<open>0\<close>. Progress: after the
  positive slab of an axis that is not the final one, only the sign flips to negative;
  after a negative slab, or the slab of the final axis, \<open>expansionProgress[d]\<close> becomes
  \<open>G\<close> and \<open>d\<close> steps to \<open>d + 1\<close>, and when that reaches \<open>numDims\<close> the
  scheduler commits \<open>B := G\<close>, \<open>G := G * 1.01\<close>, \<open>d := 0\<close>.
\<close>

theorem claimNextTask_slab:
  assumes "claimNextTask iThread state = Some state'"
  shows "(\<forall>i < numDims state.
            threadQueryDims state' ! iThread ! i =
              (if i = expandingDim state then expansionRadiusGoal state - baselineRadius state
               else if i < numDims state - 1 then 2 * expansionProgress state ! i
               else expansionProgress state ! (numDims state - 1)) \<and>
            threadQueryX0 state' ! iThread ! i =
              (if i = expandingDim state
               then (if positiveExpand state then baselineRadius state
                     else - expansionRadiusGoal state)
               else if i < numDims state - 1 then - (expansionProgress state ! i)
               else 0)) \<and>
         (if positiveExpand state \<and> expandingDim state < numDims state - 1
          then \<not> positiveExpand state' \<and>
               expandingDim state' = expandingDim state \<and>
               expansionProgress state' = expansionProgress state \<and>
               baselineRadius state' = baselineRadius state \<and>
               expansionRadiusGoal state' = expansionRadiusGoal state
          else positiveExpand state' \<and>
               expansionProgress state' =
                 (expansionProgress state)[expandingDim state := expansionRadiusGoal state] \<and>
               (if expandingDim state + 1 \<ge> numDims state
                then baselineRadius state' = expansionRadiusGoal state \<and>
                     expansionRadiusGoal state' = expansionRadiusGoal state * 1.01 \<and>
                     expandingDim state' = 0
                else baselineRadius state' = baselineRadius state \<and>
                     expansionRadiusGoal state' = expansionRadiusGoal state \<and>
                     expandingDim state' = expandingDim state + 1))"
  using assms
  by (auto simp: claimNextTask_def Let_def fillAllButFinal_eq nth_list_update
           split: if_splits prod.splits)

theorem claimNextTask_slab_witness:
  "claimNextTask 0 exampleState = Some exampleClaimed \<and>
   threadQueryDims exampleClaimed ! 0 = [1/2, 1/2] \<and>
   threadQueryX0 exampleClaimed ! 0 = [1/2, 0] \<and>
   \<not> positiveExpand exampleClaimed \<and>
   expandingDim exampleClaimed = expandingDim exampleState"
  using claimNextTask_slab [OF claim_example]
  by (simp add: claim_example exampleState_fields exampleClaimed_def)

text \<open>
  Claim C6, as the specification words it, fails: after dispatching the positive slab of
  axis 0 of 2, the expanding axis is still 0 and its progress is still 1/2, not the goal 1.
\<close>

theorem claimNextTask_positive_slab_counterexample:
  "positiveExpand exampleState \<and>
   map_option expandingDim (claimNextTask 0 exampleState) = Some (expandingDim exampleState) \<and>
   map_option (\<lambda>s. expansionProgress s ! 0) (claimNextTask 0 exampleState) = Some (1/2) \<and>
   expansionRadiusGoal exampleState = 1"
  by (simp add: claim_example exampleState_fields exampleClaimed_def)

subsection \<open>Witness recording\<close>

text \<open>
  Claim C7. Every successful call of \<open>recordResult\<close> clears \<open>continueExpansion\<close>.
  It stores the worker's baseline and point exactly when that baseline is strictly below
  \<open>foundPointBaselineRadius\<close>; in that case the continue flag of a worker \<open>j\<close> is
  cleared when \<open>j\<close> is another worker whose baseline is at least the new best, and is
  left as it was otherwise (any worker on a strictly smaller baseline, and the recording
  worker). When the baseline is not smaller, result and flags are unchanged.
\<close>

theorem recordResult_spec:
  assumes "recordResult iThread state point = Some state'"
  shows "\<not> continueExpansion state' \<and>
         (if double_less (threadBaselineRadius state ! iThread) (foundPointBaselineRadius state)
          then foundPointBaselineRadius state' = threadBaselineRadius state ! iThread \<and>
               pointWithGridCodeZero state' = point \<and>
               length (threadShouldContinue state') = length (threadShouldContinue state) \<and>
               (\<forall>j < length (threadShouldContinue state).
                  threadShouldContinue state' ! j =
                    (if j \<noteq> iThread \<and> j < length (threadBaselineRadius state) \<and>
                        double_ge (threadBaselineRadius state ! j)
                                  (threadBaselineRadius state ! iThread)
                     then False else threadShouldContinue state ! j))
          else foundPointBaselineRadius state' = foundPointBaselineRadius state \<and>
               pointWithGridCodeZero state' = pointWithGridCodeZero state \<and>
               threadShouldContinue state' = threadShouldContinue state)"
  using assms
  by (auto simp: recordResult_def Let_def stopOthers_eq split: if_splits)

theorem recordResult_spec_witness:
  "recordResult 0 exampleClaimed [7/10, 1/5] = Some exampleRecorded \<and>
   double_less (threadBaselineRadius exampleClaimed ! 0)
               (foundPointBaselineRadius exampleClaimed) \<and>
   \<not> continueExpansion exampleRecorded \<and>
   foundPointBaselineRadius exampleRecorded = Finite (1/2) \<and>
   pointWithGridCodeZero exampleRecorded = [7/10, 1/5] \<and>
   threadShouldContinue exampleRecorded = [True, False]"
  using recordResult_spec [OF record_example] numeric_limits_max_gt
  by (simp add: record_example exampleClaimed_fields exampleRecorded_fields)

subsection \<open>Monotonicity of the radii\<close>

lemma double_less_trans:
  "double_less a b \<Longrightarrow> double_less b c \<Longrightarrow> double_less a c"
  by (cases a; cases b; cases c) auto

lemma claimNextTask_inv:
  assumes "claimNextTask t s = Some s'" "schedulerInv s"
  shows "schedulerInv s' \<and> baselineRadius s \<le> baselineRadius s' \<and>
         foundPointBaselineRadius s' = foundPointBaselineRadius s"
  using assms
  by (auto simp: claimNextTask_def schedulerInv_def Let_def split: if_splits prod.splits)

lemma recordResult_inv:
  assumes "recordResult t s p = Some s'" "schedulerInv s"
  shows "schedulerInv s' \<and> baselineRadius s \<le> baselineRadius s' \<and>
         (foundPointBaselineRadius s' = foundPointBaselineRadius s \<or>
          double_less (foundPointBaselineRadius s') (foundPointBaselineRadius s))"
  using assms
  by (auto simp: recordResult_def schedulerInv_def Let_def split: if_splits)

lemma schedulerStep_inv:
  assumes "schedulerStep op s = Some s'" "schedulerInv s"
  shows "schedulerInv s' \<and> baselineRadius s \<le> baselineRadius s' \<and>
         (foundPointBaselineRadius s' = foundPointBaselineRadius s \<or>
          double_less (foundPointBaselineRadius s') (foundPointBaselineRadius s))"
proof (cases op)
  case (ClaimNextTask t)
  with assms claimNextTask_inv [of t s s'] show ?thesis by simp
next
  case (RecordResult t p)
  with assms recordResult_inv [of t s p s'] show ?thesis by simp
qed

lemma schedulerRun_inv:
  "schedulerRun ops s = Some s' \<Longrightarrow> schedulerInv s \<Longrightarrow>
   schedulerInv s' \<and> baselineRadius s \<le> baselineRadius s' \<and>
   (foundPointBaselineRadius s' = foundPointBaselineRadius s \<or>
    double_less (foundPointBaselineRadius s') (foundPointBaselineRadius s))"
proof (induction ops arbitrary: s)
  case Nil
  then show ?case by simp
next
  case (Cons op ops)
  from Cons.prems(1) obtain s1 where
    s1: "schedulerStep op s = Some s1" and rest: "schedulerRun ops s1 = Some s'"
    by (auto split: option.splits)
  from schedulerStep_inv [OF s1 Cons.prems(2)] have
    a: "schedulerInv s1" and b: "baselineRadius s \<le> baselineRadius s1" and
    c: "foundPointBaselineRadius s1 = foundPointBaselineRadius s \<or>
        double_less (foundPointBaselineRadius s1) (foundPointBaselineRadius s)"
    by simp_all
  from Cons.IH [OF rest a] have
    a': "schedulerInv s'" and b': "baselineRadius s1 \<le> baselineRadius s'" and
    c': "foundPointBaselineRadius s' = foundPointBaselineRadius s1 \<or>
        double_less (foundPointBaselineRadius s') (foundPointBaselineRadius s1)"
    by simp_all
  from c c' have "foundPointBaselineRadius s' = foundPointBaselineRadius s \<or>
        double_less (foundPointBaselineRadius s') (foundPointBaselineRadius s)"
    using double_less_trans by metis
  with a' b b' show ?case by simp
qed

lemma initialState_inv:
  "0 \<le> icd \<Longrightarrow> schedulerInv (initialState d l rho icd n)"
  by (simp add: schedulerInv_def initialState_def Let_def)

text \<open>
  Claim C9. Along any run of \<open>claimNextTask\<close> and \<open>recordResult\<close> from the initial
  state with \<open>ignoredCenterDiameter \<ge> 0\<close>, a later state has a \<open>baselineRadius\<close>
  at least as large as an earlier one, and a \<open>foundPointBaselineRadius\<close> equal to or
  strictly below the earlier one.
\<close>

theorem cube_monotonicity:
  assumes "0 \<le> ignoredCenterDiameter"
      and "schedulerRun ops1 (initialState d l rho ignoredCenterDiameter n) = Some s1"
      and "schedulerRun ops2 s1 = Some s2"
  shows "baselineRadius s1 \<le> baselineRadius s2 \<and>
         (foundPointBaselineRadius s2 = foundPointBaselineRadius s1 \<or>
          double_less (foundPointBaselineRadius s2) (foundPointBaselineRadius s1))"
proof -
  have "schedulerInv s1"
    using schedulerRun_inv [OF assms(2) initialState_inv [OF assms(1)]] by simp
  from schedulerRun_inv [OF assms(3) this] show ?thesis by simp
qed

theorem cube_monotonicity_witness:
  "(0::real) \<le> 1/2 \<and>
   schedulerRun [ClaimNextTask 0] exampleState = Some exampleClaimed \<and>
   schedulerRun [RecordResult 0 [7/10, 1/5]] exampleClaimed = Some exampleRecorded \<and>
   baselineRadius exampleClaimed \<le> baselineRadius exampleRecorded \<and>
   double_less (foundPointBaselineRadius exampleRecorded)
               (foundPointBaselineRadius exampleClaimed)"
proof -
  have r0: "schedulerRun [ClaimNextTask 0] exampleState = Some exampleClaimed"
    by (simp add: claim_example)
  then have r1: "schedulerRun [ClaimNextTask 0]
                   (initialState [[[1, 0], [0, 1]]] [[[1, 0], [0, 1]]] (1/10) (1/2) 2)
                 = Some exampleClaimed"
    by (simp only: exampleState_def)
  have r2: "schedulerRun [RecordResult 0 [7/10, 1/5]] exampleClaimed = Some exampleRecorded"
    by (simp add: record_example)
  have h: "(0::real) \<le> 1/2" by simp
  show ?thesis
    using cube_monotonicity [OF h r1 r2] numeric_limits_max_gt r0 r2
    by (simp add: exampleClaimed_fields exampleRecorded_fields)
qed

subsection \<open>The sentinel for "no witness"\<close>

lemma schedulerRun_claims_only:
  "list_all isClaim ops \<Longrightarrow> schedulerRun ops s = Some s' \<Longrightarrow>
   foundPointBaselineRadius s' = foundPointBaselineRadius s \<and>
   pointWithGridCodeZero s' = pointWithGridCodeZero s"
proof (induction ops arbitrary: s)
  case Nil
  then show ?case by simp
next
  case (Cons op ops)
  from Cons.prems(1) obtain t where op: "op = ClaimNextTask t" by (cases op) auto
  from Cons.prems(2) op obtain s1 where
    s1: "claimNextTask t s = Some s1" and rest: "schedulerRun ops s1 = Some s'"
    by (auto split: option.splits)
  from s1 have "foundPointBaselineRadius s1 = foundPointBaselineRadius s \<and>
                pointWithGridCodeZero s1 = pointWithGridCodeZero s"
    by (auto simp: claimNextTask_def Let_def split: if_splits prod.splits)
  with Cons.IH [OF _ rest] Cons.prems(1) show ?case by simp
qed

text \<open>
  Claim C8, as the code has it. \<open>foundPointBaselineRadius\<close> starts as
  \<open>std::numeric_limits<double>::max()\<close>, the largest finite double, and a run in which
  no result is recorded returns that value as the radius.
\<close>

theorem no_witness_sentinel:
  assumes "list_all isClaim ops"
      and "schedulerRun ops (initialState d l rho ignoredCenterDiameter n) = Some s"
  shows "foundPointBaselineRadius (initialState d l rho ignoredCenterDiameter n)
           = Finite numeric_limits_max \<and>
         fst (uniquenessResult s) = Finite numeric_limits_max"
  using schedulerRun_claims_only [OF assms]
  by (simp add: uniquenessResult_def initialState_def Let_def)

theorem no_witness_sentinel_witness:
  "list_all isClaim [ClaimNextTask 0] \<and>
   schedulerRun [ClaimNextTask 0] exampleState = Some exampleClaimed \<and>
   fst (uniquenessResult exampleClaimed) = Finite numeric_limits_max"
proof -
  have r0: "schedulerRun [ClaimNextTask 0] exampleState = Some exampleClaimed"
    by (simp add: claim_example)
  then have r1: "schedulerRun [ClaimNextTask 0]
                   (initialState [[[1, 0], [0, 1]]] [[[1, 0], [0, 1]]] (1/10) (1/2) 2)
                 = Some exampleClaimed"
    by (simp only: exampleState_def)
  have h: "list_all isClaim [ClaimNextTask 0]" by simp
  show ?thesis
    using no_witness_sentinel [OF h r1] r0 by simp
qed

text \<open>
  Claim C8, as the specification words it, fails: the initial value is the finite number
  \<open>(2 - 2^-52) * 2^1023\<close>, which compares strictly below plus infinity.
\<close>

theorem no_witness_sentinel_counterexample:
  "foundPointBaselineRadius exampleState = Finite ((2 - 1 / 2 ^ 52) * 2 ^ 1023) \<and>
   double_less (foundPointBaselineRadius exampleState) PlusInfinity \<and>
   foundPointBaselineRadius exampleState \<noteq> PlusInfinity"
  by (simp add: exampleState_fields numeric_limits_max_def)

end
